theory Spec2Isabelle
  imports Complex_Main "HOL-Library.Word"
begin

unbundle bit_operations_syntax

section \<open>Shared data\<close>

text \<open>
  A \<open>Uint8Array\<close> is a list of bytes. The growing \<open>number[]\<close> buffer of the writer only
  ever receives values in \<open>0..255\<close>, so it is a list of bytes as well.
\<close>

type_synonym byte = "8 word"
type_synonym bytes = "byte list"

text \<open>
  A JavaScript \<open>number\<close>: a finite value (over-approximated by a real), or one of the three
  non-finite values. \<open>Number.isInteger\<close> is membership in \<open>\<int>\<close>.
\<close>

datatype number = Num real | NaN | PosInfinity | NegInfinity

text \<open>
  The errors of the codec. The names follow the error taxonomy of the specification; the
  payloads are the values the source interpolates into its messages.
\<close>

datatype error =
    RangeError
  | InvalidLongValue
  | MalformedVarint
  | TruncatedInput
  | UnknownField string nat nat
  | MalformedMapEntry nat nat string string
  | EmptyForkStack
  | TypeError
  | CannotSkip nat

text \<open>The numeric values of the \<open>WireType\<close> enumeration.\<close>

definition Varint :: nat where "Varint = 0"
definition Bit64 :: nat where "Bit64 = 1"
definition LengthDelimited :: nat where "LengthDelimited = 2"
definition Bit32 :: nat where "Bit32 = 5"

section \<open>Imports of the writer that are not part of the sources\<close>

text \<open>
  Modelled from the spec: \<open>assertUInt32\<close> of the missing module \<open>./assert\<close>.
  "Asserts \<open>0 \<le> v \<le> 2^32 - 1\<close>"; "non-integer or out-of-range values passed to typed 32-bit
  methods fail with RangeError". The result is the asserted integer.
\<close>

fun assertUInt32 :: "number \<Rightarrow> error + int" where
  "assertUInt32 (Num x) =
     (if x \<in> \<int> \<and> 0 \<le> x \<and> x \<le> 2 ^ 32 - 1 then Inr \<lfloor>x\<rfloor> else Inl RangeError)"
| "assertUInt32 NaN = Inl RangeError"
| "assertUInt32 PosInfinity = Inl RangeError"
| "assertUInt32 NegInfinity = Inl RangeError"

text \<open>
  Modelled from the spec: \<open>assertInt32\<close> of the missing module \<open>./assert\<close>.
  "Asserts signed 32-bit range", strict on non-integers as above.
\<close>

fun assertInt32 :: "number \<Rightarrow> error + int" where
  "assertInt32 (Num x) =
     (if x \<in> \<int> \<and> - (2 ^ 31) \<le> x \<and> x \<le> 2 ^ 31 - 1 then Inr \<lfloor>x\<rfloor> else Inl RangeError)"
| "assertInt32 NaN = Inl RangeError"
| "assertInt32 PosInfinity = Inl RangeError"
| "assertInt32 NegInfinity = Inl RangeError"

text \<open>
  Modelled from the spec: \<open>assertFloat32\<close> of the missing module \<open>./assert\<close>.
  "Asserts representable as IEEE-754 binary32 (no precision loss check beyond finite/NaN)":
  non-finite values pass, finite values must lie within the binary32 range.
\<close>

definition FLOAT32_MAX :: real where
  "FLOAT32_MAX = (2 - 1 / 2 ^ 23) * 2 ^ 127"

fun assertFloat32 :: "number \<Rightarrow> error + number" where
  "assertFloat32 (Num x) =
     (if x > FLOAT32_MAX \<or> x < - FLOAT32_MAX then Inl RangeError else Inr (Num x))"
| "assertFloat32 v = Inr v"

text \<open>The loop shared by all varint writers, on a 64-bit value.\<close>

function varint_bytes :: "64 word \<Rightarrow> byte list" where
  "varint_bytes v =
     (if v > 0x7f then ucast ((v AND 0x7f) OR 0x80) # varint_bytes (drop_bit 7 v)
      else [ucast v])"
  by pat_completeness auto
termination
  apply (relation "measure unat")
   apply simp
  apply (simp add: unat_drop_bit_eq drop_bit_eq_div word_less_nat_alt unat_div)
  done

declare varint_bytes.simps [simp del]

text \<open>
  Modelled from the spec: \<open>varint64write\<close> of the missing module \<open>./goog-varint\<close>.
  "\<open>write_varint64(lo, hi, sink)\<close>: emits 1-10 bytes using the combined 64-bit value; the
  canonical encoding terminates on the first byte with the continuation bit clear", with the
  "low 7 bits per byte, continuation flag in the high bit, least-significant group first".
  The result is the bytes pushed to the sink.
\<close>

definition varint64write :: "32 word \<Rightarrow> 32 word \<Rightarrow> byte list" where
  "varint64write lo hi = varint_bytes (push_bit 32 (ucast hi) OR ucast lo)"

text \<open>
  Modelled from the spec: \<open>varint32write\<close> of the missing module \<open>./goog-varint\<close>.
  "\<open>write_varint32(value: u32, sink)\<close>: emits 1-5 bytes", and "negative 32-bit integers, when
  written as \<open>int32\<close>, must be sign-extended to 64 bits and emitted as 10 bytes".
  The argument is a JavaScript integer in the signed or the unsigned 32-bit range.
\<close>

definition varint32write :: "int \<Rightarrow> byte list" where
  "varint32write v =
     (if 0 \<le> v then varint_bytes (ucast (word_of_int v :: 32 word))
      else (let w = (scast (word_of_int v :: 32 word) :: 64 word)
            in varint64write (ucast w) (ucast (drop_bit 32 w))))"

text \<open>
  A value accepted where the source takes \<open>string | number | bigint\<close>, and the other
  imports of the writer the sources do not contain: \<open>PbLong.from\<close> and \<open>PbULong.from\<close>
  (giving the halves \<open>(lo, hi)\<close>), and the two \<open>DataView\<close> setters for IEEE-754 numbers.
  They are parameters of the model.
\<close>

datatype long_value = LString string | LNumber number | LBigInt int

record writer_deps =
  PbLong_from :: "long_value \<Rightarrow> error + (32 word \<times> 32 word)"
  PbULong_from :: "long_value \<Rightarrow> error + (32 word \<times> 32 word)"
  setFloat32 :: "number \<Rightarrow> bytes"
  setFloat64 :: "number \<Rightarrow> bytes"

section \<open>BinaryWriter\<close>

text \<open>
  The state of a \<open>BinaryWriter\<close>: the completed chunks, the in-progress buffer, the stack of
  fork states (the head of the list is the last one pushed) and the text encoder.
\<close>

record writer =
  chunks :: "bytes list"
  buf :: "byte list"
  stack :: "(bytes list \<times> byte list) list"
  textEncoder :: "string \<Rightarrow> bytes"

text \<open>
  A write returns the writer (\<open>return this\<close>), or throws. The writer is a mutable object, so
  a throw leaves a state behind; the model returns it with the error.
\<close>

type_synonym wresult = "(error \<times> writer) + writer"

definition new_BinaryWriter :: "(string \<Rightarrow> bytes) \<Rightarrow> writer" where
  "new_BinaryWriter enc = \<lparr>chunks = [], buf = [], stack = [], textEncoder = enc\<rparr>"

text \<open>\<open>finish()\<close>: the bytes returned and the writer left behind.\<close>

definition finish :: "writer \<Rightarrow> bytes \<times> writer" where
  "finish w = (let cs = chunks w @ [buf w] in (concat cs, w\<lparr>chunks := []\<rparr>))"

definition fork :: "writer \<Rightarrow> writer" where
  "fork w = w\<lparr>stack := (chunks w, buf w) # stack w, chunks := [], buf := []\<rparr>"

definition raw :: "bytes \<Rightarrow> writer \<Rightarrow> writer" where
  "raw chunk w =
     (let w1 = (if buf w \<noteq> [] then w\<lparr>chunks := chunks w @ [buf w], buf := []\<rparr> else w)
      in w1\<lparr>chunks := chunks w1 @ [chunk]\<rparr>)"

text \<open>The loop inlined in \<open>uint32\<close>, on the asserted unsigned 32-bit value.\<close>

function uint32_loop :: "32 word \<Rightarrow> byte list" where
  "uint32_loop v =
     (if v > 0x7f then ucast ((v AND 0x7f) OR 0x80) # uint32_loop (drop_bit 7 v)
      else [ucast v])"
  by pat_completeness auto
termination
  apply (relation "measure unat")
   apply simp
  apply (simp add: unat_drop_bit_eq drop_bit_eq_div word_less_nat_alt unat_div)
  done

declare uint32_loop.simps [simp del]

definition uint32 :: "number \<Rightarrow> writer \<Rightarrow> wresult" where
  "uint32 v w =
     (case assertUInt32 v of
        Inl e \<Rightarrow> Inl (e, w)
      | Inr n \<Rightarrow> Inr (w\<lparr>buf := buf w @ uint32_loop (word_of_int n)\<rparr>))"

definition join :: "writer \<Rightarrow> wresult" where
  "join w =
     (let (chunk, w1) = finish w
      in case stack w1 of
           [] \<Rightarrow> Inl (EmptyForkStack, w1)
         | prev # rest \<Rightarrow>
             (let w2 = w1\<lparr>stack := rest, chunks := fst prev, buf := snd prev\<rparr>
              in case uint32 (Num (real (length chunk))) w2 of
                   Inl e \<Rightarrow> Inl e
                 | Inr w3 \<Rightarrow> Inr (raw chunk w3)))"

text \<open>JavaScript's \<open>ToInt32\<close>, applied by \<open><<\<close> and \<open>|\<close> to their operands.\<close>

fun ToInt32 :: "number \<Rightarrow> 32 word" where
  "ToInt32 (Num x) = word_of_int (if 0 \<le> x then \<lfloor>x\<rfloor> else \<lceil>x\<rceil>)"
| "ToInt32 v = 0"

definition tag :: "number \<Rightarrow> nat \<Rightarrow> writer \<Rightarrow> wresult" where
  "tag fieldNo type w =
     uint32 (Num (real (unat (push_bit 3 (ToInt32 fieldNo) OR (word_of_nat type :: 32 word))))) w"

definition int32 :: "number \<Rightarrow> writer \<Rightarrow> wresult" where
  "int32 v w =
     (case assertInt32 v of
        Inl e \<Rightarrow> Inl (e, w)
      | Inr n \<Rightarrow> Inr (w\<lparr>buf := buf w @ varint32write n\<rparr>))"

definition bool :: "bool \<Rightarrow> writer \<Rightarrow> wresult" where
  "bool v w = Inr (w\<lparr>buf := buf w @ [if v then 1 else 0]\<rparr>)"

definition bytes :: "bytes \<Rightarrow> writer \<Rightarrow> wresult" where
  "bytes v w =
     (case uint32 (Num (real (length v))) w of
        Inl e \<Rightarrow> Inl e
      | Inr w1 \<Rightarrow> Inr (raw v w1))"

definition string :: "string \<Rightarrow> writer \<Rightarrow> wresult" where
  "string v w =
     (let chunk = textEncoder w v
      in case uint32 (Num (real (length chunk))) w of
           Inl e \<Rightarrow> Inl e
         | Inr w1 \<Rightarrow> Inr (raw chunk w1))"

definition float :: "writer_deps \<Rightarrow> number \<Rightarrow> writer \<Rightarrow> wresult" where
  "float d v w =
     (case assertFloat32 v of
        Inl e \<Rightarrow> Inl (e, w)
      | Inr x \<Rightarrow> Inr (raw (setFloat32 d x) w))"

definition double :: "writer_deps \<Rightarrow> number \<Rightarrow> writer \<Rightarrow> wresult" where
  "double d v w = Inr (raw (setFloat64 d v) w)"

text \<open>\<open>DataView.setUint32\<close> and \<open>setInt32\<close> with \<open>littleEndian = true\<close>.\<close>

definition le32 :: "32 word \<Rightarrow> bytes" where
  "le32 v = [ucast v, ucast (drop_bit 8 v), ucast (drop_bit 16 v), ucast (drop_bit 24 v)]"

definition fixed32 :: "number \<Rightarrow> writer \<Rightarrow> wresult" where
  "fixed32 v w =
     (case assertUInt32 v of
        Inl e \<Rightarrow> Inl (e, w)
      | Inr n \<Rightarrow> Inr (raw (le32 (word_of_int n)) w))"

definition sfixed32 :: "number \<Rightarrow> writer \<Rightarrow> wresult" where
  "sfixed32 v w =
     (case assertInt32 v of
        Inl e \<Rightarrow> Inl (e, w)
      | Inr n \<Rightarrow> Inr (raw (le32 (word_of_int n)) w))"

definition sint32 :: "number \<Rightarrow> writer \<Rightarrow> wresult" where
  "sint32 v w =
     (case assertInt32 v of
        Inl e \<Rightarrow> Inl (e, w)
      | Inr n \<Rightarrow>
          (let x = (word_of_int n :: 32 word);
               z = push_bit 1 x XOR signed_drop_bit 31 x
           in Inr (w\<lparr>buf := buf w @ varint32write (uint z)\<rparr>)))"

definition sfixed64 :: "writer_deps \<Rightarrow> long_value \<Rightarrow> writer \<Rightarrow> wresult" where
  "sfixed64 d v w =
     (case PbLong_from d v of
        Inl e \<Rightarrow> Inl (e, w)
      | Inr (lo, hi) \<Rightarrow> Inr (raw (le32 lo @ le32 hi) w))"

definition fixed64 :: "writer_deps \<Rightarrow> long_value \<Rightarrow> writer \<Rightarrow> wresult" where
  "fixed64 d v w =
     (case PbULong_from d v of
        Inl e \<Rightarrow> Inl (e, w)
      | Inr (lo, hi) \<Rightarrow> Inr (raw (le32 lo @ le32 hi) w))"

definition int64 :: "writer_deps \<Rightarrow> long_value \<Rightarrow> writer \<Rightarrow> wresult" where
  "int64 d v w =
     (case PbLong_from d v of
        Inl e \<Rightarrow> Inl (e, w)
      | Inr (lo, hi) \<Rightarrow> Inr (w\<lparr>buf := buf w @ varint64write lo hi\<rparr>))"

definition sint64 :: "writer_deps \<Rightarrow> long_value \<Rightarrow> writer \<Rightarrow> wresult" where
  "sint64 d v w =
     (case PbLong_from d v of
        Inl e \<Rightarrow> Inl (e, w)
      | Inr (lo, hi) \<Rightarrow>
          (let sign = signed_drop_bit 31 hi;
               lo' = push_bit 1 lo XOR sign;
               hi' = (push_bit 1 hi OR drop_bit 31 lo) XOR sign
           in Inr (w\<lparr>buf := buf w @ varint64write lo' hi'\<rparr>)))"

definition uint64 :: "writer_deps \<Rightarrow> long_value \<Rightarrow> writer \<Rightarrow> wresult" where
  "uint64 d v w =
     (case PbULong_from d v of
        Inl e \<Rightarrow> Inl (e, w)
      | Inr (lo, hi) \<Rightarrow> Inr (w\<lparr>buf := buf w @ varint64write lo hi\<rparr>))"

text \<open>
  The writes of the interface, as data, so that a sequence of writes is a list. \<open>finish\<close> is
  not one of them: it returns the bytes instead of the writer.
\<close>

datatype write_op =
    Fork
  | Join
  | Tag number nat
  | Raw bytes
  | Uint32 number
  | Int32 number
  | Bool bool
  | Bytes bytes
  | String string
  | Float number
  | Double number
  | Fixed32 number
  | Sfixed32 number
  | Sint32 number
  | Sfixed64 long_value
  | Fixed64 long_value
  | Int64 long_value
  | Sint64 long_value
  | Uint64 long_value

fun perform :: "writer_deps \<Rightarrow> write_op \<Rightarrow> writer \<Rightarrow> wresult" where
  "perform d Fork w = Inr (fork w)"
| "perform d Join w = join w"
| "perform d (Tag fieldNo type) w = tag fieldNo type w"
| "perform d (Raw chunk) w = Inr (raw chunk w)"
| "perform d (Uint32 v) w = uint32 v w"
| "perform d (Int32 v) w = int32 v w"
| "perform d (Bool v) w = bool v w"
| "perform d (Bytes v) w = bytes v w"
| "perform d (String v) w = string v w"
| "perform d (Float v) w = float d v w"
| "perform d (Double v) w = double d v w"
| "perform d (Fixed32 v) w = fixed32 v w"
| "perform d (Sfixed32 v) w = sfixed32 v w"
| "perform d (Sint32 v) w = sint32 v w"
| "perform d (Sfixed64 v) w = sfixed64 d v w"
| "perform d (Fixed64 v) w = fixed64 d v w"
| "perform d (Int64 v) w = int64 d v w"
| "perform d (Sint64 v) w = sint64 d v w"
| "perform d (Uint64 v) w = uint64 d v w"

text \<open>A chain of writes: the first throw ends it.\<close>

fun writes :: "writer_deps \<Rightarrow> write_op list \<Rightarrow> writer \<Rightarrow> wresult" where
  "writes d [] w = Inr w"
| "writes d (x # xs) w =
     (case perform d x w of Inl e \<Rightarrow> Inl e | Inr w' \<Rightarrow> writes d xs w')"

section \<open>Reflection information and message values\<close>

datatype ScalarType =
    DOUBLE | FLOAT | INT64 | UINT64 | INT32 | FIXED64 | FIXED32 | BOOL | STRING | BYTES
  | UINT32 | SFIXED32 | SFIXED64 | SINT32 | SINT64

text \<open>\<open>LongType.BIGINT\<close>, \<open>LongType.STRING\<close> and \<open>LongType.NUMBER\<close>.\<close>

datatype LongType = LT_BIGINT | LT_STRING | LT_NUMBER

datatype RepeatType = NO | PACKED | UNPACKED

text \<open>
  What a message holds (\<open>UnknownMessage\<close>, \<open>UnknownScalar\<close>, \<open>UnknownMap\<close>,
  \<open>UnknownOneofGroup\<close>): an integral number, a \<open>float\<close> or a \<open>double\<close> (kept as the IEEE-754
  bits that were read), a string, a boolean, a byte array, a big integer, an array, or an
  object: a message, a map or a oneof group, as the list of its properties in insertion
  order. A property that is \<open>undefined\<close> is a property that is absent.
\<close>

datatype val =
    VNumber int
  | VFloat "32 word"
  | VDouble "64 word"
  | VString string
  | VBoolean bool
  | VBytes bytes
  | VBigInt int
  | VArray "val list"
  | VObject "(string \<times> val) list"

type_synonym obj = "(string \<times> val) list"

definition get_prop :: "obj \<Rightarrow> string \<Rightarrow> val option" where
  "get_prop m k = map_of m k"

fun set_prop :: "string \<Rightarrow> val \<Rightarrow> obj \<Rightarrow> obj" where
  "set_prop k v [] = [(k, v)]"
| "set_prop k v (p # ps) = (if fst p = k then (k, v) # ps else p # set_prop k v ps)"

text \<open>
  The field descriptor. \<open>T\<close>, \<open>L\<close>, \<open>K\<close> and \<open>V\<close> exist according to the kind, so they are
  arguments of the kind; \<open>L\<close> may be left out; \<open>T()\<close> of a message field or of a message map
  value is the name of a message type, resolved through the table of message types.
\<close>

datatype map_value_info =
    V_scalar ScalarType "LongType option"
  | V_enum
  | V_message string

datatype field_kind =
    K_scalar ScalarType "LongType option"
  | K_enum
  | K_message string
  | K_map ScalarType map_value_info

record FieldInfo =
  no :: nat
  name :: string
  localName :: string
  kind :: field_kind
  repeat :: RepeatType
  oneof :: "string option"

text \<open>
  A message type: the \<open>PartialMessageInfo\<close> the reader is constructed with, and \<open>create()\<close>,
  whose result is a parameter of the model (message construction is not part of the sources).
\<close>

record MessageType =
  typeName :: string
  info_fields :: "FieldInfo list"
  create :: obj

text \<open>
  \<open>prepare()\<close>: the map from field number to field. \<open>new Map\<close> keeps the last entry of a
  repeated key.
\<close>

definition fieldNoToField :: "MessageType \<Rightarrow> nat \<Rightarrow> FieldInfo option" where
  "fieldNoToField info n = find (\<lambda>field. no field = n) (rev (info_fields info))"

text \<open>
  \<open>options.readUnknownField\<close>: \<open>"throw"\<close>, \<open>false\<close>, \<open>true\<close> or a function, which receives
  \<open>(typeName, message, fieldNo, wireType, data)\<close> and may change the message: the model has it
  return the message.
\<close>

datatype readUnknownField_option =
    RUF_throw
  | RUF_false
  | RUF_true
  | RUF_callable "string \<Rightarrow> obj \<Rightarrow> nat \<Rightarrow> nat \<Rightarrow> bytes \<Rightarrow> obj"

record BinaryReadOptions =
  readUnknownField :: readUnknownField_option

section \<open>Imports of the reader that are not part of the sources\<close>

text \<open>The decimal representation of an integer (\<open>toString\<close> of a number that is one).\<close>

definition digit_char :: "nat \<Rightarrow> char" where
  "digit_char d = ''0123456789'' ! d"

fun decimal_nat :: "nat \<Rightarrow> string" where
  "decimal_nat n =
     (if n < 10 then [digit_char n] else decimal_nat (n div 10) @ [digit_char (n mod 10)])"

declare decimal_nat.simps [simp del]

definition decimal :: "int \<Rightarrow> string" where
  "decimal i = (if i < 0 then CHR ''-'' # decimal_nat (nat (- i)) else decimal_nat (nat i))"

definition boolean_toString :: "bool \<Rightarrow> string" where
  "boolean_toString b = (if b then ''true'' else ''false'')"

text \<open>
  Modelled from the spec: \<open>reflectionLongConvert\<close> of the missing module
  \<open>./reflection-long-convert\<close>. A 64-bit integer is surfaced "as a decimal string, as a host
  floating-point number (caller asserts value fits 53-bit mantissa), or as a native 64-bit big
  integer"; map keys, read with \<open>LongType.STRING\<close>, show that the decimal string is the
  representation when none is asked for. The integer is the value of the \<open>Long64\<close>.
\<close>

definition reflectionLongConvert :: "int \<Rightarrow> LongType option \<Rightarrow> val" where
  "reflectionLongConvert long type =
     (case type of
        Some LT_BIGINT \<Rightarrow> VBigInt long
      | Some LT_NUMBER \<Rightarrow> VNumber long
      | Some LT_STRING \<Rightarrow> VString (decimal long)
      | None \<Rightarrow> VString (decimal long))"

text \<open>
  Modelled from the spec: \<open>reflectionScalarDefault\<close> of the missing module
  \<open>./reflection-scalar-default\<close>, the "zero value" of a scalar type: "bool default
  \<open>"false"\<close>" once stringified, "numeric default \<open>0\<close> or \<open>"0"\<close> depending on LongType", the empty
  string and the empty byte array.
\<close>

fun reflectionScalarDefault :: "ScalarType \<Rightarrow> LongType option \<Rightarrow> val" where
  "reflectionScalarDefault BOOL L = VBoolean False"
| "reflectionScalarDefault UINT64 L = reflectionLongConvert 0 L"
| "reflectionScalarDefault FIXED64 L = reflectionLongConvert 0 L"
| "reflectionScalarDefault INT64 L = reflectionLongConvert 0 L"
| "reflectionScalarDefault SFIXED64 L = reflectionLongConvert 0 L"
| "reflectionScalarDefault SINT64 L = reflectionLongConvert 0 L"
| "reflectionScalarDefault DOUBLE L = VDouble 0"
| "reflectionScalarDefault FLOAT L = VFloat 0"
| "reflectionScalarDefault BYTES L = VBytes []"
| "reflectionScalarDefault STRING L = VString []"
| "reflectionScalarDefault INT32 L = VNumber 0"
| "reflectionScalarDefault FIXED32 L = VNumber 0"
| "reflectionScalarDefault UINT32 L = VNumber 0"
| "reflectionScalarDefault SFIXED32 L = VNumber 0"
| "reflectionScalarDefault SINT32 L = VNumber 0"

text \<open>
  Modelled from the spec: \<open>UnknownFieldHandler.onRead\<close> of the missing module
  \<open>./binary-format-contract\<close>, the default unknown-field recorder, which "appends the raw
  tagged bytes to the target's unknown-field store keyed by \<open>(fieldNo, wireType)\<close>",
  "preserving insertion order". The store is the array held by one reserved property of
  the message.
\<close>

definition unknown_store :: string where
  "unknown_store = ''[protobuf-ts/unknown]''"

definition onRead :: "string \<Rightarrow> obj \<Rightarrow> nat \<Rightarrow> nat \<Rightarrow> bytes \<Rightarrow> obj" where
  "onRead tn message fieldNo wireType d =
     (let entry = VObject [(''no'', VNumber (int fieldNo)), (''wireType'', VNumber (int wireType)),
                           (''data'', VBytes d)]
      in case get_prop message unknown_store of
           Some (VArray container) \<Rightarrow> set_prop unknown_store (VArray (container @ [entry])) message
         | _ \<Rightarrow> set_prop unknown_store (VArray [entry]) message)"

subsection \<open>The byte cursor\<close>

text \<open>
  Modelled from the spec: the implementation of \<open>IBinaryReader\<close>, of the missing module
  \<open>./binary-reader\<close>. The cursor is a byte sequence, a position \<open>pos\<close> in it, \<open>len\<close> its
  length, and a text decoder. "Each primitive advances \<open>pos\<close> by exactly the bytes consumed
  and fails with \<open>TruncatedInput\<close> on underrun or \<open>MalformedVarint\<close> on overlong varints."
  A primitive is a parser of the bytes from \<open>pos\<close> on, which gives a value and the number
  of bytes consumed. A call returns the value and the cursor left behind, or fails with an
  error and the cursor left behind; the spec does not say where a primitive that fails
  leaves \<open>pos\<close>, and it is left where it was.
\<close>

record reader =
  data :: bytes
  pos :: nat
  textDecoder :: "bytes \<Rightarrow> string"

definition len :: "reader \<Rightarrow> nat" where
  "len r = length (data r)"

type_synonym 'a parser = "bytes \<Rightarrow> error + ('a \<times> nat)"

type_synonym 'a result = "(error \<times> reader) + ('a \<times> reader)"

definition consume :: "'a parser \<Rightarrow> reader \<Rightarrow> 'a result" where
  "consume p r =
     (case p (drop (pos r) (data r)) of
        Inl e \<Rightarrow> Inl (e, r)
      | Inr (v, n) \<Rightarrow> Inr (v, r\<lparr>pos := pos r + n\<rparr>))"

definition returning :: "('a \<Rightarrow> 'b) \<Rightarrow> 'e + ('a \<times> 'c) \<Rightarrow> 'e + ('b \<times> 'c)" where
  "returning f x = (case x of Inl e \<Rightarrow> Inl e | Inr (v, r) \<Rightarrow> Inr (f v, r))"

text \<open>
  Modelled from the spec: "\<open>read_varint(src)\<close>: reads up to 10 bytes; fails with
  \<open>MalformedVarint\<close> if the 10th byte still has the continuation bit set or if the stream ends
  mid-varint". The first argument counts the bytes that may still be read.
\<close>

fun varint_parse :: "nat \<Rightarrow> (64 word) parser" where
  "varint_parse 0 bs = Inl MalformedVarint"
| "varint_parse (Suc k) [] = Inl MalformedVarint"
| "varint_parse (Suc k) (b # bs) =
     (if b AND 0x80 = 0 then Inr (ucast b, 1)
      else (case varint_parse k bs of
              Inl e \<Rightarrow> Inl e
            | Inr (v, n) \<Rightarrow> Inr (ucast (b AND 0x7f) OR push_bit 7 v, Suc n)))"

definition read_varint :: "(64 word) parser" where
  "read_varint = varint_parse 10"

text \<open>A fixed number of bytes, and the little-endian value of bytes.\<close>

definition fixed_parse :: "nat \<Rightarrow> bytes parser" where
  "fixed_parse n bs = (if length bs < n then Inl TruncatedInput else Inr (take n bs, n))"

fun le_word :: "bytes \<Rightarrow> 'a::len word" where
  "le_word [] = 0"
| "le_word (b # bs) = ucast b OR push_bit 8 (le_word bs)"

definition low32 :: "64 word \<Rightarrow> 32 word" where
  "low32 v = ucast v"

definition reader_uint32 :: "reader \<Rightarrow> nat result" where
  "reader_uint32 r = returning (\<lambda>v. unat (low32 v)) (consume read_varint r)"

definition reader_int32 :: "reader \<Rightarrow> int result" where
  "reader_int32 r = returning (\<lambda>v. sint (low32 v)) (consume read_varint r)"

definition reader_sint32 :: "reader \<Rightarrow> int result" where
  "reader_sint32 r =
     returning (\<lambda>v. sint (drop_bit 1 (low32 v) XOR - (low32 v AND 1))) (consume read_varint r)"

definition reader_bool :: "reader \<Rightarrow> bool result" where
  "reader_bool r = returning (\<lambda>v. v \<noteq> 0) (consume read_varint r)"

definition reader_int64 :: "reader \<Rightarrow> int result" where
  "reader_int64 r = returning sint (consume read_varint r)"

definition reader_uint64 :: "reader \<Rightarrow> int result" where
  "reader_uint64 r = returning uint (consume read_varint r)"

definition reader_sint64 :: "reader \<Rightarrow> int result" where
  "reader_sint64 r =
     returning (\<lambda>v. sint (drop_bit 1 v XOR - (v AND 1))) (consume read_varint r)"

definition reader_fixed32 :: "reader \<Rightarrow> int result" where
  "reader_fixed32 r = returning (\<lambda>bs. uint (le_word bs :: 32 word)) (consume (fixed_parse 4) r)"

definition reader_sfixed32 :: "reader \<Rightarrow> int result" where
  "reader_sfixed32 r = returning (\<lambda>bs. sint (le_word bs :: 32 word)) (consume (fixed_parse 4) r)"

definition reader_fixed64 :: "reader \<Rightarrow> int result" where
  "reader_fixed64 r = returning (\<lambda>bs. uint (le_word bs :: 64 word)) (consume (fixed_parse 8) r)"

definition reader_sfixed64 :: "reader \<Rightarrow> int result" where
  "reader_sfixed64 r = returning (\<lambda>bs. sint (le_word bs :: 64 word)) (consume (fixed_parse 8) r)"

definition reader_float :: "reader \<Rightarrow> (32 word) result" where
  "reader_float r = returning le_word (consume (fixed_parse 4) r)"

definition reader_double :: "reader \<Rightarrow> (64 word) result" where
  "reader_double r = returning le_word (consume (fixed_parse 8) r)"

text \<open>A length-delimited chunk: a varint length, then that many bytes.\<close>

definition delimited_parse :: "bytes parser" where
  "delimited_parse bs =
     (case read_varint bs of
        Inl e \<Rightarrow> Inl e
      | Inr (v, n) \<Rightarrow>
          (let l = unat (low32 v)
           in if length bs < n + l then Inl TruncatedInput else Inr (take l (drop n bs), n + l)))"

definition reader_bytes :: "reader \<Rightarrow> bytes result" where
  "reader_bytes r = consume delimited_parse r"

definition reader_string :: "reader \<Rightarrow> string result" where
  "reader_string r = returning (textDecoder r) (consume delimited_parse r)"

text \<open>
  \<open>tag()\<close>: "a wire tag on the byte stream is \<open>(field_number << 3) | wire_type\<close>", read as a
  \<open>uint32\<close> varint.
\<close>

definition reader_tag :: "reader \<Rightarrow> (nat \<times> nat) result" where
  "reader_tag r = returning (\<lambda>t. (t div 8, t mod 8)) (reader_uint32 r)"

text \<open>
  \<open>skip(wireType)\<close>, which returns the bytes skipped: "varint scans to terminator, fixed32/64
  skip 4/8 bytes, length-delimited reads a varint length then that many bytes". The spec gives
  no other wire type a way to be skipped.
\<close>

fun varint_scan :: "nat parser" where
  "varint_scan [] = Inl TruncatedInput"
| "varint_scan (b # bs) =
     (if b AND 0x80 = 0 then Inr (1, 1)
      else (case varint_scan bs of Inl e \<Rightarrow> Inl e | Inr (m, n) \<Rightarrow> Inr (Suc m, Suc n)))"

definition skip_parse :: "nat \<Rightarrow> bytes parser" where
  "skip_parse wireType bs =
     (if wireType = Varint then
        (case varint_scan bs of Inl e \<Rightarrow> Inl e | Inr (m, n) \<Rightarrow> Inr (take n bs, n))
      else if wireType = Bit64 then fixed_parse 8 bs
      else if wireType = Bit32 then fixed_parse 4 bs
      else if wireType = LengthDelimited then
        (case delimited_parse bs of Inl e \<Rightarrow> Inl e | Inr (c, n) \<Rightarrow> Inr (take n bs, n))
      else Inl (CannotSkip wireType))"

definition reader_skip :: "nat \<Rightarrow> reader \<Rightarrow> bytes result" where
  "reader_skip wireType r = consume (skip_parse wireType) r"

section \<open>ReflectionBinaryReader\<close>

text \<open>\<open>scalar(reader, type, longType)\<close>.\<close>

fun scalar :: "reader \<Rightarrow> ScalarType \<Rightarrow> LongType option \<Rightarrow> val result" where
  "scalar r INT32 L = returning VNumber (reader_int32 r)"
| "scalar r STRING L = returning VString (reader_string r)"
| "scalar r BOOL L = returning VBoolean (reader_bool r)"
| "scalar r DOUBLE L = returning VDouble (reader_double r)"
| "scalar r FLOAT L = returning VFloat (reader_float r)"
| "scalar r INT64 L = returning (\<lambda>v. reflectionLongConvert v L) (reader_int64 r)"
| "scalar r UINT64 L = returning (\<lambda>v. reflectionLongConvert v L) (reader_uint64 r)"
| "scalar r FIXED64 L = returning (\<lambda>v. reflectionLongConvert v L) (reader_fixed64 r)"
| "scalar r FIXED32 L = returning VNumber (reader_fixed32 r)"
| "scalar r BYTES L = returning VBytes (reader_bytes r)"
| "scalar r UINT32 L = returning (\<lambda>n. VNumber (int n)) (reader_uint32 r)"
| "scalar r SFIXED32 L = returning VNumber (reader_sfixed32 r)"
| "scalar r SFIXED64 L = returning (\<lambda>v. reflectionLongConvert v L) (reader_sfixed64 r)"
| "scalar r SINT32 L = returning VNumber (reader_sint32 r)"
| "scalar r SINT64 L = returning (\<lambda>v. reflectionLongConvert v L) (reader_sint64 r)"

text \<open>
  The loops of the reader decode nested messages through the same cursor, so they are
  defined by recursion on a fuel: \<open>None\<close> is the outcome of a run the fuel did not suffice
  for, \<open>Some (Inr (x, r))\<close> a result with the cursor left behind, \<open>Some (Inl (e, r))\<close> a throw
  with the cursor left behind: a \<open>throw\<close> of the reader itself leaves the cursor as it is at
  that statement, a failure of a cursor primitive passes through unchanged.
\<close>

type_synonym 'a outcome = "'a result option"

text \<open>
  What \<open>field.T().internalBinaryRead\<close> is to its callers: from the message type name, the
  cursor, the length, the options and the target (\<open>undefined\<close> when there is none) to the
  message read.
\<close>

type_synonym nested = "string \<Rightarrow> reader \<Rightarrow> nat \<Rightarrow> BinaryReadOptions \<Rightarrow> val option \<Rightarrow> obj outcome"

text \<open>\<open>case 1\<close> and \<open>case 2\<close> of the switch in \<open>mapEntry\<close>.\<close>

definition mapEntry_key :: "ScalarType \<Rightarrow> reader \<Rightarrow> val result" where
  "mapEntry_key K r =
     (if K = BOOL then returning (\<lambda>b. VString (boolean_toString b)) (reader_bool r)
      else scalar r K (Some LT_STRING))"

definition mapEntry_value ::
  "nested \<Rightarrow> map_value_info \<Rightarrow> BinaryReadOptions \<Rightarrow> reader \<Rightarrow> val outcome" where
  "mapEntry_value nest V options r =
     (case V of
        V_scalar T L \<Rightarrow> Some (scalar r T L)
      | V_enum \<Rightarrow> Some (returning VNumber (reader_int32 r))
      | V_message tn \<Rightarrow>
          (case reader_uint32 r of
             Inl e \<Rightarrow> Some (Inl e)
           | Inr (l, r1) \<Rightarrow>
               (case nest tn r1 l options None of
                  None \<Rightarrow> None
                | Some (Inl e) \<Rightarrow> Some (Inl e)
                | Some (Inr (m, r2)) \<Rightarrow> Some (Inr (VObject m, r2)))))"

text \<open>The loop of \<open>mapEntry\<close>, with \<open>key\<close> and \<open>val\<close> as they are when the loop ends.\<close>

fun mapEntry_loop ::
  "nat \<Rightarrow> nested \<Rightarrow> string \<Rightarrow> string \<Rightarrow> ScalarType \<Rightarrow> map_value_info \<Rightarrow> BinaryReadOptions \<Rightarrow>
   nat \<Rightarrow> reader \<Rightarrow> val option \<Rightarrow> val option \<Rightarrow> (val option \<times> val option) outcome" where
  "mapEntry_loop n nest tn fname K V options endpos r key val =
     (if pos r < endpos then
        (case n of
           0 \<Rightarrow> None
         | Suc m \<Rightarrow>
             (case reader_tag r of
                Inl e \<Rightarrow> Some (Inl e)
              | Inr ((fieldNo, wireType), r1) \<Rightarrow>
                  if fieldNo = 1 then
                    (case mapEntry_key K r1 of
                       Inl e \<Rightarrow> Some (Inl e)
                     | Inr (k, r2) \<Rightarrow>
                         mapEntry_loop m nest tn fname K V options endpos r2 (Some k) val)
                  else if fieldNo = 2 then
                    (case mapEntry_value nest V options r1 of
                       None \<Rightarrow> None
                     | Some (Inl e) \<Rightarrow> Some (Inl e)
                     | Some (Inr (v, r2)) \<Rightarrow>
                         mapEntry_loop m nest tn fname K V options endpos r2 key (Some v))
                  else Some (Inl (MalformedMapEntry fieldNo wireType tn fname, r1))))
      else Some (Inr ((key, val), r)))"

declare mapEntry_loop.simps [simp del]

text \<open>
  \<open>mapEntry(field, reader, options)\<close>, for a map field with key type \<open>K\<close> and value \<open>V\<close>;
  \<open>createOf\<close> gives \<open>create()\<close> of a message type.
\<close>

definition mapEntry ::
  "nat \<Rightarrow> nested \<Rightarrow> (string \<Rightarrow> obj) \<Rightarrow> string \<Rightarrow> string \<Rightarrow> ScalarType \<Rightarrow> map_value_info \<Rightarrow>
   BinaryReadOptions \<Rightarrow> reader \<Rightarrow> (val \<times> val) outcome" where
  "mapEntry n nest createOf tn fname K V options r =
     (case reader_uint32 r of
        Inl e \<Rightarrow> Some (Inl e)
      | Inr (length', r1) \<Rightarrow>
          (let endpos = pos r1 + length'
           in case mapEntry_loop n nest tn fname K V options endpos r1 None None of
                None \<Rightarrow> None
              | Some (Inl e) \<Rightarrow> Some (Inl e)
              | Some (Inr ((key, val), r2)) \<Rightarrow>
                  (let key' =
                         (case key of
                            Some k \<Rightarrow> k
                          | None \<Rightarrow>
                              (let keyRaw = reflectionScalarDefault K None
                               in if K = BOOL
                                  then (case keyRaw of
                                          VBoolean b \<Rightarrow> VString (boolean_toString b)
                                        | other \<Rightarrow> other)
                                  else keyRaw));
                       val' =
                         (case val of
                            Some v \<Rightarrow> v
                          | None \<Rightarrow>
                              (case V of
                                 V_scalar T L \<Rightarrow> reflectionScalarDefault T L
                               | V_enum \<Rightarrow> VNumber 0
                               | V_message t \<Rightarrow> VObject (createOf t)))
                   in Some (Inr ((key', val'), r2)))))"

text \<open>
  The name of the property a map key selects: a number key names the property of its
  decimal representation. Map keys are strings or numbers.
\<close>

fun property_key :: "val \<Rightarrow> string" where
  "property_key (VString s) = s"
| "property_key (VNumber i) = decimal i"
| "property_key (VBigInt i) = decimal i"
| "property_key (VBoolean b) = boolean_toString b"
| "property_key v = []"

text \<open>
  The target object of a field: the message, or the oneof group when the field is a member
  of one, replaced by \<open>{oneofKind: localName}\<close> when another member is selected. Reading
  \<open>oneofKind\<close> of a group that is \<open>undefined\<close> throws.
\<close>

definition oneofKind :: string where
  "oneofKind = ''oneofKind''"

definition select_target :: "FieldInfo \<Rightarrow> obj \<Rightarrow> error + obj" where
  "select_target field message =
     (case oneof field of
        None \<Rightarrow> Inr message
      | Some g \<Rightarrow>
          (case get_prop message g of
             None \<Rightarrow> Inl TypeError
           | Some (VObject target) \<Rightarrow>
               if get_prop target oneofKind \<noteq> Some (VString (localName field))
               then Inr [(oneofKind, VString (localName field))]
               else Inr target
           | Some other \<Rightarrow> Inr [(oneofKind, VString (localName field))]))"

text \<open>
  The target is the message itself or the object held by \<open>message[field.oneof]\<close>: what was
  written into it is written into the message.
\<close>

definition store_target :: "FieldInfo \<Rightarrow> obj \<Rightarrow> obj \<Rightarrow> obj" where
  "store_target field message target =
     (case oneof field of
        None \<Rightarrow> target
      | Some g \<Rightarrow> set_prop g (VObject target) message)"

text \<open>\<open>arr.push(v)\<close> for \<open>arr = target[localName]\<close>, which throws unless \<open>arr\<close> is an array.\<close>

definition push :: "string \<Rightarrow> val \<Rightarrow> obj \<Rightarrow> error + obj" where
  "push k v target =
     (case get_prop target k of
        Some (VArray arr) \<Rightarrow> Inr (set_prop k (VArray (arr @ [v])) target)
      | _ \<Rightarrow> Inl TypeError)"

text \<open>
  \<open>arr.push(this.scalar(reader, T, L))\<close>: the method is looked up before its argument is
  evaluated.
\<close>

definition push_scalar ::
  "ScalarType \<Rightarrow> LongType option \<Rightarrow> string \<Rightarrow> reader \<Rightarrow> obj \<Rightarrow> obj result" where
  "push_scalar T L k r target =
     (case get_prop target k of
        Some (VArray arr) \<Rightarrow>
          (case scalar r T L of
             Inl e \<Rightarrow> Inl e
           | Inr (v, r1) \<Rightarrow> Inr (set_prop k (VArray (arr @ [v])) target, r1))
      | _ \<Rightarrow> Inl (TypeError, r))"

text \<open>The loop over a packed field: \<open>while (reader.pos < e) arr.push(...)\<close>.\<close>

fun packed_loop ::
  "nat \<Rightarrow> ScalarType \<Rightarrow> LongType option \<Rightarrow> string \<Rightarrow> nat \<Rightarrow> reader \<Rightarrow> obj \<Rightarrow> obj outcome" where
  "packed_loop n T L k e r target =
     (if pos r < e then
        (case n of
           0 \<Rightarrow> None
         | Suc m \<Rightarrow>
             (case push_scalar T L k r target of
                Inl err \<Rightarrow> Some (Inl err)
              | Inr (target', r1) \<Rightarrow> packed_loop m T L k e r1 target'))
      else Some (Inr (target, r)))"

declare packed_loop.simps [simp del]

text \<open>\<open>case "scalar"\<close> and \<open>case "enum"\<close> of the switch in \<open>read\<close>.\<close>

definition read_scalar ::
  "nat \<Rightarrow> ScalarType \<Rightarrow> LongType option \<Rightarrow> FieldInfo \<Rightarrow> nat \<Rightarrow> reader \<Rightarrow> obj \<Rightarrow> obj outcome" where
  "read_scalar n T L field wireType r target =
     (if repeat field \<noteq> NO then
        (if wireType = LengthDelimited \<and> T \<noteq> STRING \<and> T \<noteq> BYTES then
           (case reader_uint32 r of
              Inl e \<Rightarrow> Some (Inl e)
            | Inr (l, r1) \<Rightarrow> packed_loop n T L (localName field) (l + pos r1) r1 target)
         else Some (push_scalar T L (localName field) r target))
      else
        (case scalar r T L of
           Inl e \<Rightarrow> Some (Inl e)
         | Inr (v, r1) \<Rightarrow> Some (Inr (set_prop (localName field) v target, r1))))"

text \<open>\<open>case "message"\<close> of the switch in \<open>read\<close>.\<close>

definition read_message ::
  "nested \<Rightarrow> string \<Rightarrow> BinaryReadOptions \<Rightarrow> FieldInfo \<Rightarrow> reader \<Rightarrow> obj \<Rightarrow> obj outcome" where
  "read_message nest T options field r target =
     (case reader_uint32 r of
        Inl e \<Rightarrow> Some (Inl e)
      | Inr (l, r1) \<Rightarrow>
          (if repeat field \<noteq> NO then
             (case nest T r1 l options None of
                None \<Rightarrow> None
              | Some (Inl e) \<Rightarrow> Some (Inl e)
              | Some (Inr (msg, r2)) \<Rightarrow>
                  (case push (localName field) (VObject msg) target of
                     Inl e \<Rightarrow> Some (Inl (e, r2))
                   | Inr target' \<Rightarrow> Some (Inr (target', r2))))
           else
             (case nest T r1 l options (get_prop target (localName field)) of
                None \<Rightarrow> None
              | Some (Inl e) \<Rightarrow> Some (Inl e)
              | Some (Inr (msg, r2)) \<Rightarrow>
                  Some (Inr (set_prop (localName field) (VObject msg) target, r2)))))"

text \<open>\<open>case "map"\<close> of the switch in \<open>read\<close>.\<close>

definition read_map ::
  "nat \<Rightarrow> nested \<Rightarrow> (string \<Rightarrow> obj) \<Rightarrow> string \<Rightarrow> ScalarType \<Rightarrow> map_value_info \<Rightarrow>
   BinaryReadOptions \<Rightarrow> FieldInfo \<Rightarrow> reader \<Rightarrow> obj \<Rightarrow> obj outcome" where
  "read_map n nest createOf tn K V options field r target =
     (case mapEntry n nest createOf tn (name field) K V options r of
        None \<Rightarrow> None
      | Some (Inl e) \<Rightarrow> Some (Inl e)
      | Some (Inr ((mapKey, mapVal), r1)) \<Rightarrow>
          (case get_prop target (localName field) of
             Some (VObject m) \<Rightarrow>
               Some (Inr (set_prop (localName field)
                            (VObject (set_prop (property_key mapKey) mapVal m)) target, r1))
           | _ \<Rightarrow> Some (Inl (TypeError, r1))))"

text \<open>The switch on \<open>field.kind\<close>.\<close>

definition read_field ::
  "nat \<Rightarrow> nested \<Rightarrow> (string \<Rightarrow> obj) \<Rightarrow> string \<Rightarrow> BinaryReadOptions \<Rightarrow> FieldInfo \<Rightarrow> nat \<Rightarrow>
   reader \<Rightarrow> obj \<Rightarrow> obj outcome" where
  "read_field n nest createOf tn options field wireType r target =
     (case kind field of
        K_scalar T L \<Rightarrow> read_scalar n T L field wireType r target
      | K_enum \<Rightarrow> read_scalar n INT32 None field wireType r target
      | K_message T \<Rightarrow> read_message nest T options field r target
      | K_map K V \<Rightarrow> read_map n nest createOf tn K V options field r target)"

text \<open>The handling of a tag without a field, after the tag has been read.\<close>

definition read_unknown ::
  "string \<Rightarrow> BinaryReadOptions \<Rightarrow> nat \<Rightarrow> nat \<Rightarrow> reader \<Rightarrow> obj \<Rightarrow> obj result" where
  "read_unknown tn options fieldNo wireType r message =
     (case readUnknownField options of
        RUF_throw \<Rightarrow> Inl (UnknownField tn fieldNo wireType, r)
      | u \<Rightarrow>
          (case reader_skip wireType r of
             Inl e \<Rightarrow> Inl e
           | Inr (d, r1) \<Rightarrow>
               Inr (case u of
                      RUF_false \<Rightarrow> message
                    | RUF_true \<Rightarrow> onRead tn message fieldNo wireType d
                    | RUF_callable f \<Rightarrow> f tn message fieldNo wireType d
                    | RUF_throw \<Rightarrow> message,
                    r1)))"

text \<open>The body of the loop of \<open>read\<close>: one tag and what follows it.\<close>

definition read_one ::
  "nat \<Rightarrow> nested \<Rightarrow> (string \<Rightarrow> obj) \<Rightarrow> MessageType \<Rightarrow> BinaryReadOptions \<Rightarrow> reader \<Rightarrow> obj \<Rightarrow>
   obj outcome" where
  "read_one n nest createOf info options r message =
     (case reader_tag r of
        Inl e \<Rightarrow> Some (Inl e)
      | Inr ((fieldNo, wireType), r1) \<Rightarrow>
          (case fieldNoToField info fieldNo of
             None \<Rightarrow> Some (read_unknown (typeName info) options fieldNo wireType r1 message)
           | Some field \<Rightarrow>
               (case select_target field message of
                  Inl e \<Rightarrow> Some (Inl (e, r1))
                | Inr target \<Rightarrow>
                    (case read_field n nest createOf (typeName info) options field wireType r1
                            target of
                       None \<Rightarrow> None
                     | Some (Inl e) \<Rightarrow> Some (Inl e)
                     | Some (Inr (target', r2)) \<Rightarrow>
                         Some (Inr (store_target field message target', r2))))))"

text \<open>
  Modelled from the spec: \<open>internalBinaryRead\<close> of a message type, of the missing module
  \<open>./message-type\<close>. The nested reader gets the existing message as target, "creating one if
  absent", and reads \<open>length\<close> bytes from the position of the cursor. \<open>rd\<close> is the loop of
  the reader of that type. A target that is not an object is outside the declared types.
\<close>

definition internalBinaryRead ::
  "(nat \<Rightarrow> reader \<Rightarrow> obj \<Rightarrow> obj outcome) \<Rightarrow> obj \<Rightarrow> reader \<Rightarrow> nat \<Rightarrow> val option \<Rightarrow> obj outcome" where
  "internalBinaryRead rd created r length' target =
     (case target of
        None \<Rightarrow> rd (pos r + length') r created
      | Some (VObject message) \<Rightarrow> rd (pos r + length') r message
      | Some other \<Rightarrow> Some (Inl (TypeError, r)))"

text \<open>
  The loop of \<open>read\<close>, up to the position \<open>endpos\<close>; \<open>types\<close> resolves the name of a message
  type.
\<close>

fun read_loop ::
  "nat \<Rightarrow> (string \<Rightarrow> MessageType) \<Rightarrow> MessageType \<Rightarrow> BinaryReadOptions \<Rightarrow> nat \<Rightarrow> reader \<Rightarrow> obj \<Rightarrow>
   obj outcome" where
  "read_loop n types info options endpos r message =
     (if pos r < endpos then
        (case n of
           0 \<Rightarrow> None
         | Suc m \<Rightarrow>
             (case read_one m
                     (\<lambda>T r' l opts t.
                        internalBinaryRead (read_loop m types (types T) opts) (create (types T))
                          r' l t)
                     (\<lambda>T. create (types T)) info options r message of
                None \<Rightarrow> None
              | Some (Inl e) \<Rightarrow> Some (Inl e)
              | Some (Inr (message', r')) \<Rightarrow> read_loop m types info options endpos r' message'))
      else Some (Inr (message, r)))"

declare read_loop.simps [simp del]

text \<open>\<open>read(reader, message, options, length?)\<close>.\<close>

definition read ::
  "nat \<Rightarrow> (string \<Rightarrow> MessageType) \<Rightarrow> MessageType \<Rightarrow> reader \<Rightarrow> obj \<Rightarrow> BinaryReadOptions \<Rightarrow>
   nat option \<Rightarrow> obj outcome" where
  "read n types info r message options length' =
     read_loop n types info options
       (case length' of None \<Rightarrow> len r | Some l \<Rightarrow> pos r + l) r message"
section \<open>Notions used to state and prove the properties of the writer\<close>

text \<open>
  \<open>restack\<close> replaces the fork stack in the outcome of a write; \<open>nests\<close> holds of the two
  writes that change the fork stack; \<open>written\<close> is the bytes of the current chunks and buffer,
  \<open>flat\<close> the bytes of a saved fork state, \<open>layers\<close> the bytes of the current state and of
  every saved one; \<open>bytes_of\<close> is what a write appends on a new writer; \<open>grafted P R a b\<close>
  relates two writers whose layers agree, but for the bytes \<open>P\<close> before the bottom layer of
  \<open>a\<close> and the layers \<open>R\<close> below it.
\<close>

definition restack :: "(bytes list \<times> byte list) list \<Rightarrow> wresult \<Rightarrow> wresult" where
  "restack s r = (case r of Inl (e, w) \<Rightarrow> Inl (e, w\<lparr>stack := s\<rparr>) | Inr w \<Rightarrow> Inr (w\<lparr>stack := s\<rparr>))"

fun nests :: "write_op \<Rightarrow> bool" where
  "nests Fork = True"
| "nests Join = True"
| "nests x = False"

definition written :: "writer \<Rightarrow> bytes" where
  "written w = concat (chunks w) @ buf w"

definition flat :: "bytes list \<times> byte list \<Rightarrow> bytes" where
  "flat p = concat (fst p) @ snd p"

definition layers :: "writer \<Rightarrow> bytes list" where
  "layers w = written w # map flat (stack w)"

definition bytes_of :: "writer_deps \<Rightarrow> (string \<Rightarrow> bytes) \<Rightarrow> write_op \<Rightarrow> error + bytes" where
  "bytes_of d enc x =
     (case perform d x (new_BinaryWriter enc) of
        Inl (e, u) \<Rightarrow> Inl e
      | Inr u \<Rightarrow> Inr (written u))"

definition grafted :: "bytes \<Rightarrow> bytes list \<Rightarrow> writer \<Rightarrow> writer \<Rightarrow> bool" where
  "grafted P R a b \<longleftrightarrow>
     textEncoder a = textEncoder b \<and>
     (\<exists>ls l0. layers a = ls @ [l0] \<and> layers b = ls @ (P @ l0) # R)"

section \<open>Notions used to state and prove the properties of the reader\<close>

text \<open>
  \<open>skipped\<close> describes the bytes \<open>skip\<close> returns for a wire type. \<open>reads_field\<close> holds when the
  body of the loop of \<open>read\<close> meets the tag of a field (\<open>r1\<close> is the cursor after the tag) and
  completes; \<open>oneof_member\<close> holds of a singular field of a oneof group (a group holds no
  repeated field and no map) whose property name is not the discriminator's; \<open>selected\<close> says
  which member a group of a message selects; \<open>scalar_value\<close> is the value \<open>scalar\<close> decodes
  for a scalar or enum field. \<open>merge_target\<close> is the message a nested read starts from,
  \<open>is_target\<close> holds of a target that is absent or an object, and \<open>at_message_field\<close> holds
  when the cursor is at the tag and length of a message field. An \<open>entry_item\<close> is one
  tagged field read by the loop of \<open>mapEntry\<close>: its field number and wire type, the cursor
  after the tag, the value read, and the cursor after the value; \<open>entry_items\<close> holds of the
  fields the loop reads one after the other from a cursor, \<open>end_of\<close> is the cursor after them,
  \<open>last_item\<close> the value of the last one with a field number, \<open>occurrences\<close> the values of
  those with a field number, in order; \<open>default_key\<close> and \<open>default_value\<close> are the zero
  values \<open>mapEntry\<close> substitutes. \<open>reads_key\<close> and \<open>reads_value\<close> say, by the cursor primitives
  alone, what a key field and a value field of a map entry hold: a \<open>BOOL\<close> key is the bool
  that \<open>bool()\<close> reads, as \<open>"true"\<close> or \<open>"false"\<close>, any other key what \<open>scalar\<close> reads with long
  values as strings; a scalar value is what \<open>scalar\<close> reads, an enum value what \<open>int32()\<close>
  reads, a message value what the message type reads from the length-delimited bytes with no
  target; \<open>entry_fields\<close> holds of the fields that follow one another from a cursor in this
  sense. The remaining definitions are the cursor and the message types of the examples.
\<close>

definition skipped :: "nat \<Rightarrow> bytes \<Rightarrow> bytes \<Rightarrow> bool" where
  "skipped wireType bs d \<longleftrightarrow>
     (if wireType = Varint then
        d \<noteq> [] \<and> last d AND 0x80 = 0 \<and> list_all (\<lambda>b. b AND 0x80 \<noteq> 0) (butlast d)
      else if wireType = Bit64 then length d = 8
      else if wireType = Bit32 then length d = 4
      else wireType = LengthDelimited \<and>
        (case read_varint bs of
           Inl e \<Rightarrow> False
         | Inr (v, n) \<Rightarrow> length d = n + unat (low32 v)))"





definition merge_target :: "MessageType \<Rightarrow> val option \<Rightarrow> obj" where
  "merge_target T target = (case target of Some (VObject existing) \<Rightarrow> existing | _ \<Rightarrow> create T)"

definition is_target :: "val option \<Rightarrow> bool" where
  "is_target target = (case target of None \<Rightarrow> True | Some (VObject existing) \<Rightarrow> True | _ \<Rightarrow> False)"

definition at_message_field ::
  "MessageType \<Rightarrow> FieldInfo \<Rightarrow> reader \<Rightarrow> reader \<Rightarrow> nat \<Rightarrow> bool" where
  "at_message_field info field r r2 l \<longleftrightarrow>
     (\<exists>wireType r1. reader_tag r = Inr ((no field, wireType), r1) \<and>
        reader_uint32 r1 = Inr (l, r2)) \<and>
     fieldNoToField info (no field) = Some field"

definition cursor :: "bytes \<Rightarrow> reader" where
  "cursor bs = \<lparr>data = bs, pos = 0, textDecoder = map (\<lambda>b. if b = 0x61 then CHR ''a'' else CHR ''b'')\<rparr>"

definition no_fields :: MessageType where
  "no_fields = \<lparr>typeName = ''Empty'', info_fields = [], create = []\<rparr>"

definition int32_field :: "nat \<Rightarrow> string \<Rightarrow> string option \<Rightarrow> FieldInfo" where
  "int32_field n k g =
     \<lparr>no = n, name = k, localName = k, kind = K_scalar INT32 None, repeat = NO, oneof = g\<rparr>"


definition inner :: MessageType where
  "inner = \<lparr>typeName = ''Inner'',
     info_fields = [int32_field 1 ''a'' None, int32_field 2 ''b'' None],
     create = [(''a'', VNumber 0), (''b'', VNumber 0)]\<rparr>"

definition inner_field :: FieldInfo where
  "inner_field = \<lparr>no = 1, name = ''inner'', localName = ''inner'', kind = K_message ''Inner'',
     repeat = NO, oneof = None\<rparr>"

definition outer :: MessageType where
  "outer = \<lparr>typeName = ''Outer'', info_fields = [inner_field], create = []\<rparr>"
record entry_item =
  item_no :: nat
  item_wireType :: nat
  item_start :: reader
  item_value :: val
  item_end :: reader

fun entry_items ::
  "nested \<Rightarrow> ScalarType \<Rightarrow> map_value_info \<Rightarrow> BinaryReadOptions \<Rightarrow> nat \<Rightarrow> reader \<Rightarrow>
   entry_item list \<Rightarrow> bool" where
  "entry_items nest K V options endpos r [] = True"
| "entry_items nest K V options endpos r (x # xs) =
     (pos r < endpos \<and>
      reader_tag r = Inr ((item_no x, item_wireType x), item_start x) \<and>
      (if item_no x = 1 then mapEntry_key K (item_start x) = Inr (item_value x, item_end x)
       else item_no x = 2 \<and>
            mapEntry_value nest V options (item_start x) = Some (Inr (item_value x, item_end x))) \<and>
      entry_items nest K V options endpos (item_end x) xs)"

fun end_of :: "reader \<Rightarrow> entry_item list \<Rightarrow> reader" where
  "end_of r [] = r"
| "end_of r (x # xs) = end_of (item_end x) xs"

fun last_item :: "nat \<Rightarrow> val option \<Rightarrow> entry_item list \<Rightarrow> val option" where
  "last_item fieldNo cur [] = cur"
| "last_item fieldNo cur (x # xs) =
     last_item fieldNo (if item_no x = fieldNo then Some (item_value x) else cur) xs"

definition default_key :: "ScalarType \<Rightarrow> val" where
  "default_key K = (if K = BOOL then VString ''false'' else reflectionScalarDefault K None)"

definition default_value :: "(string \<Rightarrow> obj) \<Rightarrow> map_value_info \<Rightarrow> val" where
  "default_value createOf V =
     (case V of
        V_scalar T L \<Rightarrow> reflectionScalarDefault T L
      | V_enum \<Rightarrow> VNumber 0
      | V_message t \<Rightarrow> VObject (createOf t))"

definition occurrences :: "nat \<Rightarrow> entry_item list \<Rightarrow> val list" where
  "occurrences fieldNo items = map item_value (filter (\<lambda>x. item_no x = fieldNo) items)"

definition valid_map_key :: "ScalarType \<Rightarrow> bool" where
  "valid_map_key K \<longleftrightarrow> K \<noteq> FLOAT \<and> K \<noteq> DOUBLE \<and> K \<noteq> BYTES"

fun string_or_number :: "val \<Rightarrow> bool" where
  "string_or_number (VString s) = True"
| "string_or_number (VNumber i) = True"
| "string_or_number v = False"

definition entry_item_of :: "nat \<Rightarrow> nat \<Rightarrow> reader \<Rightarrow> val \<Rightarrow> reader \<Rightarrow> entry_item" where
  "entry_item_of n w s v e =
     \<lparr>item_no = n, item_wireType = w, item_start = s, item_value = v, item_end = e\<rparr>"

definition reads_key :: "ScalarType \<Rightarrow> reader \<Rightarrow> val \<Rightarrow> reader \<Rightarrow> bool" where
  "reads_key K s k e \<longleftrightarrow>
     (if K = BOOL then
        (reader_bool s = Inr (True, e) \<and> k = VString ''true'') \<or>
        (reader_bool s = Inr (False, e) \<and> k = VString ''false'')
      else scalar s K (Some LT_STRING) = Inr (k, e))"

definition reads_value ::
  "nested \<Rightarrow> map_value_info \<Rightarrow> BinaryReadOptions \<Rightarrow> reader \<Rightarrow> val \<Rightarrow> reader \<Rightarrow> bool" where
  "reads_value nest V options s v e \<longleftrightarrow>
     (case V of
        V_scalar T L \<Rightarrow> scalar s T L = Inr (v, e)
      | V_enum \<Rightarrow>
          (case reader_int32 s of Inl err \<Rightarrow> False | Inr (i, e') \<Rightarrow> v = VNumber i \<and> e' = e)
      | V_message tn \<Rightarrow>
          (case reader_uint32 s of
             Inl err \<Rightarrow> False
           | Inr (l, s1) \<Rightarrow>
               (case nest tn s1 l options None of
                  Some (Inr (m, e')) \<Rightarrow> v = VObject m \<and> e' = e
                | _ \<Rightarrow> False)))"

fun entry_fields ::
  "nested \<Rightarrow> ScalarType \<Rightarrow> map_value_info \<Rightarrow> BinaryReadOptions \<Rightarrow> nat \<Rightarrow> reader \<Rightarrow>
   entry_item list \<Rightarrow> bool" where
  "entry_fields nest K V options endpos r [] = True"
| "entry_fields nest K V options endpos r (x # xs) =
     (pos r < endpos \<and>
      reader_tag r = Inr ((item_no x, item_wireType x), item_start x) \<and>
      (if item_no x = 1 then reads_key K (item_start x) (item_value x) (item_end x)
       else item_no x = 2 \<and>
            reads_value nest V options (item_start x) (item_value x) (item_end x)) \<and>
      entry_fields nest K V options endpos (item_end x) xs)"

section \<open>Notions used to state and prove the properties of repeated scalar fields\<close>

text \<open>
  \<open>tag_bytes\<close> is the varint the writer's \<open>uint32\<close> loop emits for a tag. \<open>map_parser\<close> applies
  a function to what a parser returns, and \<open>scalar_parser\<close> is \<open>scalar\<close> as a parser of the bytes
  at the cursor (shown equal to \<open>scalar\<close> below); \<open>encodes\<close> holds of the bytes a value of a
  scalar type is decoded from, all of them being consumed; a parser is \<open>stable\<close> when bytes
  after those it consumed do not change its result. \<open>scalar_type\<close> is the scalar type and long
  type \<open>read\<close> uses for a scalar or enum field. \<open>packed\<close> is the packed encoding of a field
  whose values have the encodings \<open>bs\<close>: one tag, the length, the values; \<open>unpacked\<close> is one
  tag and value per element. The remaining definitions are the message type of the example.
\<close>

definition tag_bytes :: "nat \<Rightarrow> nat \<Rightarrow> bytes" where
  "tag_bytes fieldNo wireType =
     uint32_loop (push_bit 3 (word_of_nat fieldNo) OR word_of_nat wireType)"

definition map_parser :: "('a \<Rightarrow> 'b) \<Rightarrow> 'a parser \<Rightarrow> 'b parser" where
  "map_parser f p bs = (case p bs of Inl e \<Rightarrow> Inl e | Inr (v, n) \<Rightarrow> Inr (f v, n))"

fun scalar_parser :: "ScalarType \<Rightarrow> LongType option \<Rightarrow> (bytes \<Rightarrow> string) \<Rightarrow> val parser" where
  "scalar_parser INT32 L dec = map_parser (\<lambda>v. VNumber (sint (low32 v))) read_varint"
| "scalar_parser STRING L dec = map_parser (\<lambda>bs. VString (dec bs)) delimited_parse"
| "scalar_parser BOOL L dec = map_parser (\<lambda>v. VBoolean (v \<noteq> 0)) read_varint"
| "scalar_parser DOUBLE L dec = map_parser (\<lambda>bs. VDouble (le_word bs)) (fixed_parse 8)"
| "scalar_parser FLOAT L dec = map_parser (\<lambda>bs. VFloat (le_word bs)) (fixed_parse 4)"
| "scalar_parser INT64 L dec = map_parser (\<lambda>v. reflectionLongConvert (sint v) L) read_varint"
| "scalar_parser UINT64 L dec = map_parser (\<lambda>v. reflectionLongConvert (uint v) L) read_varint"
| "scalar_parser FIXED64 L dec =
     map_parser (\<lambda>bs. reflectionLongConvert (uint (le_word bs :: 64 word)) L) (fixed_parse 8)"
| "scalar_parser FIXED32 L dec =
     map_parser (\<lambda>bs. VNumber (uint (le_word bs :: 32 word))) (fixed_parse 4)"
| "scalar_parser BYTES L dec = map_parser VBytes delimited_parse"
| "scalar_parser UINT32 L dec = map_parser (\<lambda>v. VNumber (int (unat (low32 v)))) read_varint"
| "scalar_parser SFIXED32 L dec =
     map_parser (\<lambda>bs. VNumber (sint (le_word bs :: 32 word))) (fixed_parse 4)"
| "scalar_parser SFIXED64 L dec =
     map_parser (\<lambda>bs. reflectionLongConvert (sint (le_word bs :: 64 word)) L) (fixed_parse 8)"
| "scalar_parser SINT32 L dec =
     map_parser (\<lambda>v. VNumber (sint (drop_bit 1 (low32 v) XOR - (low32 v AND 1)))) read_varint"
| "scalar_parser SINT64 L dec =
     map_parser (\<lambda>v. reflectionLongConvert (sint (drop_bit 1 v XOR - (v AND 1))) L) read_varint"

definition encodes :: "ScalarType \<Rightarrow> LongType option \<Rightarrow> (bytes \<Rightarrow> string) \<Rightarrow> bytes \<Rightarrow> val \<Rightarrow> bool" where
  "encodes T L dec b v \<longleftrightarrow> scalar_parser T L dec b = Inr (v, length b)"

definition stable :: "'a parser \<Rightarrow> bool" where
  "stable p \<longleftrightarrow>
     (\<forall>bs v n rest. p bs = Inr (v, n) \<longrightarrow> 0 < n \<and> n \<le> length bs \<and> p (bs @ rest) = Inr (v, n))"

definition scalar_type :: "FieldInfo \<Rightarrow> (ScalarType \<times> LongType option) option" where
  "scalar_type field =
     (case kind field of
        K_scalar T L \<Rightarrow> Some (T, L)
      | K_enum \<Rightarrow> Some (INT32, None)
      | _ \<Rightarrow> None)"

definition packed :: "nat \<Rightarrow> bytes list \<Rightarrow> bytes" where
  "packed fieldNo bs =
     tag_bytes fieldNo LengthDelimited @ uint32_loop (word_of_nat (length (concat bs))) @ concat bs"

definition unpacked :: "nat \<Rightarrow> nat \<Rightarrow> bytes list \<Rightarrow> bytes" where
  "unpacked fieldNo wireType bs = concat (map (\<lambda>b. tag_bytes fieldNo wireType @ b) bs)"

definition repeated_int32 :: "nat \<Rightarrow> string \<Rightarrow> FieldInfo" where
  "repeated_int32 n k =
     \<lparr>no = n, name = k, localName = k, kind = K_scalar INT32 None, repeat = PACKED, oneof = None\<rparr>"

definition numbers :: MessageType where
  "numbers = \<lparr>typeName = ''Numbers'',
     info_fields = [int32_field 1 ''count'' None, repeated_int32 4 ''values''],
     create = [(''count'', VNumber 0), (''values'', VArray [])]\<rparr>"
section \<open>Properties of the writer\<close>

lemma uint32_loop_small: "v \<le> 0x7f \<Longrightarrow> uint32_loop v = [ucast v]"
  by (simp add: uint32_loop.simps leD)

lemma uint32_one: "uint32 (Num 1) w = Inr (w\<lparr>buf := buf w @ [1]\<rparr>)"
  by (simp add: uint32_def uint32_loop.simps)

lemma uint32_two: "uint32 (Num 2) w = Inr (w\<lparr>buf := buf w @ [2]\<rparr>)"
  by (simp add: uint32_def uint32_loop.simps)

text \<open>
  C5. \<open>finish()\<close> returns the completed chunks followed by the in-progress buffer, but it
  resets only \<open>chunks\<close>: the buffer stays. After \<open>uint32(1); finish()\<close> on a new writer, which
  returns the byte \<open>01\<close>, the writes \<open>uint32(2); finish()\<close> return \<open>01 02\<close>, where a new writer
  returns \<open>02\<close>.
\<close>

theorem finish_keeps_buffer:
  "\<exists>w1 w2 w3.
     uint32 (Num 1) (new_BinaryWriter (\<lambda>s. [])) = Inr w1 \<and> fst (finish w1) = [1] \<and>
     uint32 (Num 2) (snd (finish w1)) = Inr w2 \<and> fst (finish w2) = [1, 2] \<and>
     uint32 (Num 2) (new_BinaryWriter (\<lambda>s. [])) = Inr w3 \<and> fst (finish w3) = [2]"
  by (simp add: uint32_one uint32_two finish_def new_BinaryWriter_def)

text \<open>
  C8. \<open>join()\<close> on a writer whose fork stack is empty raises \<open>EmptyForkStack\<close>, but it
  has run \<open>finish()\<close> before it looks at the stack: the writer is left in the state
  \<open>finish()\<close> leaves, with the completed chunks discarded and the fork stack still empty.
\<close>

theorem join_empty_stack:
  "stack w = [] \<Longrightarrow>
     join w = Inl (EmptyForkStack, snd (finish w)) \<and>
     chunks (snd (finish w)) = [] \<and> stack (snd (finish w)) = []"
  by (simp add: join_def finish_def Let_def)

theorem join_empty_stack_witness:
  "stack (raw [1] (new_BinaryWriter (\<lambda>s. []))) = [] \<and>
   join (raw [1] (new_BinaryWriter (\<lambda>s. []))) =
     Inl (EmptyForkStack, snd (finish (raw [1] (new_BinaryWriter (\<lambda>s. []))))) \<and>
   chunks (snd (finish (raw [1] (new_BinaryWriter (\<lambda>s. []))))) = []"
proof -
  have h: "stack (raw [1] (new_BinaryWriter (\<lambda>s. []))) = []"
    by (simp add: raw_def new_BinaryWriter_def)
  show ?thesis
    using h join_empty_stack [OF h] by simp
qed

text \<open>
  The claim as stated fails: after \<open>raw([1])\<close> on a new writer, \<open>finish()\<close> returns the byte
  \<open>01\<close>; after a failed \<open>join()\<close> it returns nothing.
\<close>

theorem join_empty_stack_loses_chunks:
  "\<not> (\<forall>w. stack w = [] \<longrightarrow>
        (\<exists>w'. join w = Inl (EmptyForkStack, w') \<and> fst (finish w') = fst (finish w)))"
proof
  assume a: "\<forall>w. stack w = [] \<longrightarrow>
    (\<exists>w'. join w = Inl (EmptyForkStack, w') \<and> fst (finish w') = fst (finish w))"
  let ?w = "raw [1] (new_BinaryWriter (\<lambda>s. []))"
  have "stack ?w = []"
    by (simp add: raw_def new_BinaryWriter_def)
  with a obtain w' where "join ?w = Inl (EmptyForkStack, w')" "fst (finish w') = fst (finish ?w)"
    by blast
  then show False
    by (simp add: join_def finish_def raw_def new_BinaryWriter_def Let_def split: if_splits)
qed

subsection \<open>The varint of a negative \<open>int32\<close>\<close>

lemma unat_drop7: "unat (drop_bit 7 (w :: 64 word)) = unat w div 128"
  by (simp add: unat_drop_bit_eq drop_bit_eq_div unat_div)

lemma varint_bytes_length:
  "2 ^ (7 * k) \<le> unat w \<Longrightarrow> unat w < 2 ^ (7 * (k + 1)) \<Longrightarrow> length (varint_bytes w) = k + 1"
proof (induction k arbitrary: w)
  case 0
  then have "\<not> w > 0x7f"
    by (simp add: word_less_nat_alt)
  then show ?case
    by (simp add: varint_bytes.simps)
next
  case (Suc k)
  have "(2::nat) ^ 7 \<le> 2 ^ (7 * Suc k)"
    by (rule power_increasing) simp_all
  with Suc.prems have gt: "w > 0x7f"
    by (simp add: word_less_nat_alt)
  have lo: "2 ^ (7 * k) \<le> unat (drop_bit 7 w)"
    using Suc.prems(1) by (simp add: unat_drop7 power_add less_eq_div_iff_mult_less_eq)
  have hi: "unat (drop_bit 7 w) < 2 ^ (7 * (k + 1))"
    using Suc.prems(2) by (simp add: unat_drop7 power_add less_mult_imp_div_less)
  from Suc.IH [OF lo hi] gt show ?case
    by (subst varint_bytes.simps) simp
qed

lemma halves_recombine:
  "push_bit 32 (ucast (ucast (drop_bit 32 w) :: 32 word)) OR ucast (ucast w :: 32 word) =
     (w :: 64 word)"
  by (rule bit_word_eqI) (auto simp: bit_simps)

lemma scast_int32:
  assumes "- (2 ^ 31) \<le> v" "v < 2 ^ 31"
  shows "(scast (word_of_int v :: 32 word) :: 64 word) = word_of_int v"
proof -
  have "sint (word_of_int v :: 32 word) = v"
    using assms by (simp add: signed_of_int signed_take_bit_int_eq_self)
  then show ?thesis
    by (simp add: scast_eq)
qed

lemma unat_negative_int64:
  assumes "- (2 ^ 31) \<le> v" "v < 0"
  shows "unat (word_of_int v :: 64 word) = nat (2 ^ 64 + v)"
proof -
  have "v mod 2 ^ 64 = (v + 2 ^ 64) mod 2 ^ 64"
    by simp
  also have "\<dots> = v + 2 ^ 64"
    by (rule mod_pos_pos_trivial) (use assms in simp_all)
  finally have "v mod 2 ^ 64 = 2 ^ 64 + v"
    by simp
  then show ?thesis
    by (simp add: unat_eq_nat_uint uint_word_of_int)
qed

lemma varint32write_negative:
  assumes "- (2 ^ 31) \<le> v" "v < 0"
  shows "varint32write v = varint_bytes (word_of_int v)"
    and "length (varint32write v) = 10"
proof -
  show eq: "varint32write v = varint_bytes (word_of_int v)"
    using assms
    by (simp add: varint32write_def varint64write_def Let_def halves_recombine scast_int32)
  have "2 ^ (7 * 9) \<le> unat (word_of_int v :: 64 word)"
    using assms by (simp add: unat_negative_int64)
  moreover have "unat (word_of_int v :: 64 word) < 2 ^ (7 * (9 + 1))"
    using unsigned_less [of "word_of_int v :: 64 word", where 'a = nat] by simp
  ultimately have "length (varint_bytes (word_of_int v :: 64 word)) = 9 + 1"
    by (rule varint_bytes_length)
  with eq show "length (varint32write v) = 10"
    by simp
qed

lemma varint_bytes_minus_one:
  "varint_bytes (- 1) = [0xff, 0xff, 0xff, 0xff, 0xff, 0xff, 0xff, 0xff, 0xff, 0x01]"
  by code_simp

lemma tag_1_Varint: "tag (Num 1) Varint w = Inr (w\<lparr>buf := buf w @ [0x08]\<rparr>)"
  by (simp add: tag_def Varint_def uint32_def uint32_loop.simps)

lemma int32_minus_one:
  "int32 (Num (- 1)) w =
     Inr (w\<lparr>buf := buf w @ [0xff, 0xff, 0xff, 0xff, 0xff, 0xff, 0xff, 0xff, 0xff, 0x01]\<rparr>)"
proof -
  have "varint32write (- 1) = varint_bytes (- 1)"
    using varint32write_negative(1) [of "- 1"] by simp
  moreover have "assertInt32 (Num (- 1)) = Inr (- 1)"
    by (simp add: floor_eq_iff)
  ultimately show ?thesis
    by (simp add: int32_def varint_bytes_minus_one del: assertInt32.simps)
qed

lemma int32_not_integer:
  assumes "\<forall>i. - (2 ^ 31) \<le> i \<and> i \<le> 2 ^ 31 - 1 \<longrightarrow> x \<noteq> Num (of_int i)"
  shows "int32 x w = Inl (RangeError, w)"
proof (cases x)
  case (Num r)
  have "\<not> (r \<in> \<int> \<and> - (2 ^ 31) \<le> r \<and> r \<le> 2 ^ 31 - 1)"
  proof
    assume a: "r \<in> \<int> \<and> - (2 ^ 31) \<le> r \<and> r \<le> 2 ^ 31 - 1"
    then obtain i where i: "r = of_int i"
      by (auto elim: Ints_cases)
    with a have "- (2 ^ 31) \<le> i \<and> i \<le> 2 ^ 31 - 1"
      by simp
    with assms i Num show False
      by blast
  qed
  with Num show ?thesis
    by (simp add: int32_def)
qed (simp_all add: int32_def)

text \<open>
  C9. For an integer \<open>v\<close> of the signed 32-bit range that is negative, \<open>int32(v)\<close> appends to
  the buffer the varint of \<open>v\<close> as a 64-bit two's complement value, which is 10 bytes long;
  \<open>tag(1, Varint)\<close> and \<open>int32(-1)\<close> on a new writer give \<open>08 ff ff ff ff ff ff ff ff ff 01\<close>;
  and an input that is not an integer of the signed 32-bit range fails with \<open>RangeError\<close>,
  the writer unchanged.
\<close>

theorem int32_sign_extends:
  "(- (2 ^ 31) \<le> v \<and> v < 0 \<longrightarrow>
      int32 (Num (of_int v)) w = Inr (w\<lparr>buf := buf w @ varint_bytes (word_of_int v)\<rparr>) \<and>
      length (varint_bytes (word_of_int v)) = 10) \<and>
   (\<exists>w1. writes d [Tag (Num 1) Varint, Int32 (Num (- 1))] (new_BinaryWriter enc) = Inr w1 \<and>
      fst (finish w1) = [0x08, 0xff, 0xff, 0xff, 0xff, 0xff, 0xff, 0xff, 0xff, 0xff, 0x01]) \<and>
   ((\<forall>i. - (2 ^ 31) \<le> i \<and> i \<le> 2 ^ 31 - 1 \<longrightarrow> x \<noteq> Num (of_int i)) \<longrightarrow>
      int32 x w = Inl (RangeError, w))"
proof (intro conjI impI)
  assume a: "- (2 ^ 31) \<le> v \<and> v < 0"
  then have "assertInt32 (Num (of_int v)) = Inr v"
    by simp
  with a show "int32 (Num (of_int v)) w = Inr (w\<lparr>buf := buf w @ varint_bytes (word_of_int v)\<rparr>)"
    by (simp add: int32_def varint32write_negative(1))
  from a show "length (varint_bytes (word_of_int v :: 64 word)) = 10"
    using varint32write_negative [of v] by simp
next
  show "\<exists>w1. writes d [Tag (Num 1) Varint, Int32 (Num (- 1))] (new_BinaryWriter enc) = Inr w1 \<and>
      fst (finish w1) = [0x08, 0xff, 0xff, 0xff, 0xff, 0xff, 0xff, 0xff, 0xff, 0xff, 0x01]"
    by (simp add: tag_1_Varint int32_minus_one finish_def new_BinaryWriter_def)
next
  assume "\<forall>i. - (2 ^ 31) \<le> i \<and> i \<le> 2 ^ 31 - 1 \<longrightarrow> x \<noteq> Num (of_int i)"
  then show "int32 x w = Inl (RangeError, w)"
    by (rule int32_not_integer)
qed

theorem int32_sign_extends_witness:
  "int32 (Num (- 5)) (new_BinaryWriter (\<lambda>s. [])) =
     Inr (new_BinaryWriter (\<lambda>s. [])
       \<lparr>buf := [0xfb, 0xff, 0xff, 0xff, 0xff, 0xff, 0xff, 0xff, 0xff, 0x01]\<rparr>) \<and>
   int32 NaN (new_BinaryWriter (\<lambda>s. [])) = Inl (RangeError, new_BinaryWriter (\<lambda>s. []))"
proof -
  have h: "(- 5 :: 64 word) = 0xfffffffffffffffb"
    by simp
  have b: "varint_bytes (- 5) =
      [0xfb, 0xff, 0xff, 0xff, 0xff, 0xff, 0xff, 0xff, 0xff, 0x01]"
    unfolding h by code_simp
  have n: "\<forall>i. - (2 ^ 31) \<le> i \<and> i \<le> 2 ^ 31 - 1 \<longrightarrow> NaN \<noteq> Num (of_int i)"
    by simp
  have p: "- (2 ^ 31) \<le> (- 5::int) \<and> (- 5::int) < 0"
    by simp
  have 1: "int32 (Num (of_int (- 5))) W = Inr (W\<lparr>buf := buf W @ varint_bytes (word_of_int (- 5))\<rparr>)" for W
    using int32_sign_extends [THEN conjunct1, THEN mp, OF p] by blast
  have 2: "int32 NaN W = Inl (RangeError, W)" for W
    using int32_sign_extends [THEN conjunct2, THEN conjunct2, THEN mp, OF n] .
  show ?thesis
    using 1 [of "new_BinaryWriter (\<lambda>s. [])"] b
    by (simp add: 2 new_BinaryWriter_def)
qed

subsection \<open>Fork and join\<close>

lemma restack_simps [simp]:
  "restack s (Inl (e, w)) = Inl (e, w\<lparr>stack := s\<rparr>)"
  "restack s (Inr w) = Inr (w\<lparr>stack := s\<rparr>)"
  by (simp_all add: restack_def)

lemma uint32_restack: "uint32 v (a\<lparr>stack := s\<rparr>) = restack s (uint32 v a)"
  by (simp add: uint32_def split: sum.splits)

lemma raw_restack: "raw c (a\<lparr>stack := s\<rparr>) = (raw c a)\<lparr>stack := s\<rparr>"
  by (simp add: raw_def Let_def)

lemma stack_raw [simp]: "stack (raw c a) = stack a"
  by (simp add: raw_def Let_def)

lemma textEncoder_raw [simp]: "textEncoder (raw c a) = textEncoder a"
  by (simp add: raw_def Let_def)

lemma uint32_keeps:
  "uint32 v a = Inr a' \<Longrightarrow> stack a' = stack a \<and> textEncoder a' = textEncoder a"
  by (auto simp: uint32_def split: sum.splits)

lemma perform_restack:
  "\<not> nests x \<Longrightarrow> perform d x (a\<lparr>stack := s\<rparr>) = restack s (perform d x a)"
  by (cases x)
    (simp_all add: tag_def uint32_restack raw_restack int32_def bool_def bytes_def string_def
      float_def double_def fixed32_def sfixed32_def sint32_def sfixed64_def fixed64_def
      int64_def sint64_def uint64_def Let_def
      split: sum.splits prod.splits)

lemma perform_keeps:
  "\<not> nests x \<Longrightarrow> perform d x a = Inr a' \<Longrightarrow> stack a' = stack a"
  by (cases x)
    (auto simp: tag_def int32_def bool_def bytes_def string_def
      float_def double_def fixed32_def sfixed32_def sint32_def sfixed64_def fixed64_def
      int64_def sint64_def uint64_def Let_def
      dest: uint32_keeps split: sum.splits prod.splits)

lemma perform_textEncoder: "perform d x a = Inr a' \<Longrightarrow> textEncoder a' = textEncoder a"
  by (cases x)
    (auto simp: fork_def join_def finish_def tag_def int32_def bool_def bytes_def string_def
      float_def double_def fixed32_def sfixed32_def sint32_def sfixed64_def fixed64_def
      int64_def sint64_def uint64_def Let_def
      dest: uint32_keeps split: sum.splits prod.splits list.splits)

lemma join_frame:
  assumes "join a = Inr a'"
  shows "join (a\<lparr>stack := stack a @ rest\<rparr>) = Inr (a'\<lparr>stack := stack a' @ rest\<rparr>)"
proof (cases a)
  case (fields c b s t)
  show ?thesis
  proof (cases s)
    case Nil
    with assms fields show ?thesis
      by (simp add: join_def finish_def Let_def)
  next
    case (Cons prev st)
    with assms fields show ?thesis
      by (auto simp: join_def finish_def Let_def uint32_def raw_def split: sum.splits if_splits)
  qed
qed

lemma perform_frame:
  assumes "perform d x a = Inr a'"
  shows "perform d x (a\<lparr>stack := stack a @ rest\<rparr>) = Inr (a'\<lparr>stack := stack a' @ rest\<rparr>)"
proof (cases "nests x")
  case True
  then consider "x = Fork" | "x = Join"
    by (cases x) simp_all
  then show ?thesis
  proof cases
    case 1
    with assms show ?thesis
      by (auto simp: fork_def)
  next
    case 2
    with assms show ?thesis
      by (simp add: join_frame)
  qed
next
  case False
  from perform_keeps [OF False assms] perform_restack [OF False, of d "stack a @ rest" a] assms
  show ?thesis
    by simp
qed

lemma writes_frame:
  "writes d W a = Inr a' \<Longrightarrow>
     writes d W (a\<lparr>stack := stack a @ rest\<rparr>) = Inr (a'\<lparr>stack := stack a' @ rest\<rparr>)"
proof (induction W arbitrary: a)
  case Nil
  then show ?case by simp
next
  case (Cons x W)
  from Cons.prems obtain a1 where 1: "perform d x a = Inr a1" and 2: "writes d W a1 = Inr a'"
    by (auto split: sum.splits)
  from perform_frame [OF 1] Cons.IH [OF 2] show ?case
    by simp
qed

lemma writes_append:
  "writes d (xs @ ys) w = (case writes d xs w of Inl e \<Rightarrow> Inl e | Inr w' \<Rightarrow> writes d ys w')"
  by (induction xs arbitrary: w) (auto split: sum.splits)

lemma writes_textEncoder: "writes d W a = Inr a' \<Longrightarrow> textEncoder a' = textEncoder a"
  by (induction W arbitrary: a) (auto split: sum.splits dest: perform_textEncoder)

lemma fst_finish: "fst (finish w) = written w"
  by (simp add: finish_def written_def)

lemma assertUInt32_length:
  "assertUInt32 (Num (real n)) = (if n < 2 ^ 32 then Inr (int n) else Inl RangeError)"
  by auto

lemma uint32_length:
  "uint32 (Num (real n)) w =
     (if n < 2 ^ 32 then Inr (w\<lparr>buf := buf w @ uint32_loop (word_of_nat n)\<rparr>)
      else Inl (RangeError, w))"
  by (simp add: uint32_def assertUInt32_length del: assertUInt32.simps)

lemma written_raw [simp]: "written (raw c w) = written w @ c"
  by (simp add: raw_def written_def Let_def)

lemma written_buf [simp]: "written (w\<lparr>buf := buf w @ bs\<rparr>) = written w @ bs"
  by (simp add: written_def)

lemma perform_simple:
  assumes "\<not> nests x"
  shows "(\<exists>e. bytes_of d (textEncoder w) x = Inl e \<and> perform d x w = Inl (e, w)) \<or>
         (\<exists>bs w'. bytes_of d (textEncoder w) x = Inr bs \<and> perform d x w = Inr w' \<and>
            written w' = written w @ bs \<and> stack w' = stack w \<and> textEncoder w' = textEncoder w)"
  using assms
  by (cases x)
    (auto simp: bytes_of_def new_BinaryWriter_def tag_def uint32_def int32_def bool_def bytes_def
      string_def float_def double_def fixed32_def sfixed32_def sint32_def sfixed64_def fixed64_def
      int64_def sint64_def uint64_def Let_def written_def raw_def
      split: sum.splits prod.splits if_splits)

lemma layers_fork: "layers (fork w) = [] # layers w"
  by (simp add: layers_def fork_def written_def flat_def)

lemma textEncoder_fork: "textEncoder (fork w) = textEncoder w"
  by (simp add: fork_def)

lemma join_unfold:
  "join w =
     (case stack w of
        [] \<Rightarrow> Inl (EmptyForkStack, w\<lparr>chunks := []\<rparr>)
      | prev # rest \<Rightarrow>
          (if length (written w) < 2 ^ 32
           then Inr (raw (written w)
             (w\<lparr>chunks := fst prev,
                buf := snd prev @ uint32_loop (word_of_nat (length (written w))),
                stack := rest\<rparr>))
           else Inl (RangeError, w\<lparr>chunks := fst prev, buf := snd prev, stack := rest\<rparr>)))"
proof -
  have c: "concat (chunks w @ [buf w]) = written w"
    by (simp add: written_def)
  show ?thesis
    unfolding join_def finish_def Let_def c
    by (cases w) (simp add: uint32_length split: list.splits)
qed

lemma join_Inr:
  assumes "join w = Inr w'"
  obtains prev st where "stack w = prev # st" "length (written w) < 2 ^ 32"
    "layers w' = (flat prev @ uint32_loop (word_of_nat (length (written w))) @ written w) # map flat st"
    "stack w' = st" "textEncoder w' = textEncoder w"
proof (cases "stack w")
  case Nil
  with assms show ?thesis
    by (simp add: join_unfold)
next
  case (Cons prev st)
  with assms have len: "length (written w) < 2 ^ 32"
    and w': "w' = raw (written w)
             (w\<lparr>chunks := fst prev,
                buf := snd prev @ uint32_loop (word_of_nat (length (written w))),
                stack := st\<rparr>)"
    by (simp_all add: join_unfold split: if_splits)
  have "written (w\<lparr>chunks := fst prev,
                buf := snd prev @ uint32_loop (word_of_nat (length (written w))),
                stack := st\<rparr>) = flat prev @ uint32_loop (word_of_nat (length (written w)))"
    by (simp add: written_def flat_def)
  with w' have "layers w' = (flat prev @ uint32_loop (word_of_nat (length (written w))) @ written w) # map flat st"
    by (simp add: layers_def)
  moreover from w' have "stack w' = st" "textEncoder w' = textEncoder w"
    by simp_all
  ultimately show ?thesis
    using Cons len that by blast
qed

lemma join_Cons:
  assumes "stack w = prev # st" "length (written w) < 2 ^ 32"
  shows "\<exists>w'. join w = Inr w'"
  using assms by (simp add: join_unfold)

lemma grafted_perform:
  assumes rel: "grafted P R a b" and a: "perform d x a = Inr a'"
  shows "\<exists>b'. perform d x b = Inr b' \<and> grafted P R a' b'"
proof -
  from rel obtain ls l0 where enc: "textEncoder a = textEncoder b"
    and la: "layers a = ls @ [l0]" and lb: "layers b = ls @ (P @ l0) # R"
    by (auto simp: grafted_def)
  show ?thesis
  proof (cases "nests x")
    case False
    from perform_simple [OF False, of d a] a obtain bs
      where bs: "bytes_of d (textEncoder a) x = Inr bs"
        and a': "written a' = written a @ bs" "stack a' = stack a" "textEncoder a' = textEncoder a"
      by auto
    from perform_simple [OF False, of d b] bs enc obtain b'
      where b: "perform d x b = Inr b'"
        and b': "written b' = written b @ bs" "stack b' = stack b" "textEncoder b' = textEncoder b"
      by auto
    have "grafted P R a' b'"
    proof (cases ls)
      case Nil
      with la lb a' b' enc show ?thesis
        by (auto simp: grafted_def layers_def intro!: exI [of _ "[]"])
    next
      case (Cons l ls')
      with la lb a' b' enc show ?thesis
        by (auto simp: grafted_def layers_def intro!: exI [of _ "(l @ bs) # ls'"])
    qed
    with b show ?thesis
      by blast
  next
    case True
    then consider "x = Fork" | "x = Join"
      by (cases x) simp_all
    then show ?thesis
    proof cases
      case 1
      with a have "a' = fork a"
        by simp
      with la lb enc have "grafted P R a' (fork b)"
        by (auto simp: grafted_def layers_fork textEncoder_fork intro!: exI [of _ "[] # ls"])
      with 1 show ?thesis
        by simp
    next
      case 2
      with a have ja: "join a = Inr a'"
        by simp
      from ja obtain prev st where sa: "stack a = prev # st" and len: "length (written a) < 2 ^ 32"
        and la': "layers a' = (flat prev @ uint32_loop (word_of_nat (length (written a))) @ written a) # map flat st"
        and ea: "textEncoder a' = textEncoder a"
        by (rule join_Inr)
      from sa la obtain ls' where ls: "ls = written a # ls'" and st: "map flat (prev # st) = ls' @ [l0]"
        by (cases ls) (auto simp: layers_def)
      from ls lb have wb: "written b = written a" and sb: "map flat (stack b) = ls' @ (P @ l0) # R"
        by (auto simp: layers_def)
      then obtain prevb stb where sb': "stack b = prevb # stb"
        by (cases "stack b") auto
      with len wb obtain b' where jb: "join b = Inr b'"
        using join_Cons [of b prevb stb] by auto
      from jb obtain prev2 st2 where sb2: "stack b = prev2 # st2"
        and lb': "layers b' = (flat prev2 @ uint32_loop (word_of_nat (length (written b))) @ written b) # map flat st2"
        and eb: "textEncoder b' = textEncoder b"
        by (rule join_Inr)
      have "grafted P R a' b'"
      proof (cases ls')
        case Nil
        with st sb sb2 la' lb' wb ea eb enc show ?thesis
          by (auto simp: grafted_def intro!: exI [of _ "[]"])
      next
        case (Cons l ls'')
        with st sb sb2 la' lb' wb ea eb enc show ?thesis
          by (auto simp: grafted_def
              intro!: exI [of _ "(l @ uint32_loop (word_of_nat (length (written a))) @ written a) # ls''"])
      qed
      with jb 2 show ?thesis
        by simp
    qed
  qed
qed

lemma grafted_writes:
  "grafted P R a b \<Longrightarrow> writes d W a = Inr a' \<Longrightarrow>
     \<exists>b'. writes d W b = Inr b' \<and> grafted P R a' b'"
proof (induction W arbitrary: a b)
  case Nil
  then show ?case
    by simp
next
  case (Cons x W)
  from Cons.prems(2) obtain a1 where 1: "perform d x a = Inr a1" and 2: "writes d W a1 = Inr a'"
    by (auto split: sum.splits)
  from grafted_perform [OF Cons.prems(1) 1] obtain b1
    where 3: "perform d x b = Inr b1" and 4: "grafted P R a1 b1"
    by blast
  from Cons.IH [OF 4 2] 3 show ?case
    by simp
qed

lemma writes_on_state:
  assumes W: "writes d W (new_BinaryWriter (textEncoder S)) = Inr F" and st: "stack F = []"
  shows "\<exists>S''. writes d W S = Inr S'' \<and> fst (finish S'') = fst (finish S) @ fst (finish F)"
proof -
  have "grafted (written S) (map flat (stack S)) (new_BinaryWriter (textEncoder S)) S"
    by (auto simp: grafted_def layers_def new_BinaryWriter_def written_def intro!: exI [of _ "[]"])
  from grafted_writes [OF this W] obtain S'' where 1: "writes d W S = Inr S''"
    and 2: "grafted (written S) (map flat (stack S)) F S''"
    by blast
  from 2 st have "written S'' = written S @ written F"
    by (auto simp: grafted_def layers_def)
  with 1 show ?thesis
    by (simp add: fst_finish)
qed

lemma fork_writes_join:
  assumes W: "writes d W (new_BinaryWriter (textEncoder S)) = Inr F" and st: "stack F = []"
    and len: "length (fst (finish F)) < 2 ^ 32"
  shows "\<exists>S'. writes d (Fork # W @ [Join]) S = Inr S' \<and>
           fst (finish S') =
             fst (finish S) @ uint32_loop (word_of_nat (length (fst (finish F)))) @ fst (finish F) \<and>
           stack S' = stack S"
proof -
  let ?rest = "(chunks S, buf S) # stack S"
  have f: "fork S = (new_BinaryWriter (textEncoder S))\<lparr>stack := stack (new_BinaryWriter (textEncoder S)) @ ?rest\<rparr>"
    by (cases S) (simp add: fork_def new_BinaryWriter_def)
  from writes_frame [OF W, of ?rest] st f have 1: "writes d W (fork S) = Inr (F\<lparr>stack := ?rest\<rparr>)"
    by simp
  have enc: "textEncoder F = textEncoder S"
    using writes_textEncoder [OF W] by (simp add: new_BinaryWriter_def)
  from len have len': "length (written (F\<lparr>stack := ?rest\<rparr>)) < 2 ^ 32"
    by (simp add: finish_def written_def)
  let ?L = "uint32_loop (word_of_nat (length (fst (finish F))))"
  define S' where "S' = raw (fst (finish F)) (S\<lparr>buf := buf S @ ?L\<rparr>)"
  have w: "written (F\<lparr>stack := ?rest\<rparr>) = fst (finish F)"
    by (simp add: finish_def written_def)
  have "F\<lparr>stack := ?rest, chunks := chunks S, buf := buf S @ ?L, stack := stack S\<rparr> =
      S\<lparr>buf := buf S @ ?L\<rparr>"
    using enc by (cases F; cases S) simp
  with len' w have 2: "join (F\<lparr>stack := ?rest\<rparr>) = Inr S'"
    by (simp add: join_unfold S'_def)
  have 3: "fst (finish S') = fst (finish S) @ ?L @ fst (finish F)"
    by (simp add: S'_def fst_finish)
  have 4: "stack S' = stack S"
    by (simp add: S'_def)
  from 1 2 have "writes d (Fork # W @ [Join]) S = Inr S'"
    by (simp add: writes_append)
  with 3 4 show ?thesis
    by blast
qed

lemma fork_writes_join_long:
  assumes W: "writes d W (new_BinaryWriter (textEncoder S)) = Inr F" and st: "stack F = []"
    and len: "\<not> length (fst (finish F)) < 2 ^ 32"
  shows "\<exists>w. writes d (Fork # W @ [Join]) S = Inl (RangeError, w)"
proof -
  let ?rest = "(chunks S, buf S) # stack S"
  have f: "fork S = (new_BinaryWriter (textEncoder S))\<lparr>stack := stack (new_BinaryWriter (textEncoder S)) @ ?rest\<rparr>"
    by (cases S) (simp add: fork_def new_BinaryWriter_def)
  from writes_frame [OF W, of ?rest] st f have 1: "writes d W (fork S) = Inr (F\<lparr>stack := ?rest\<rparr>)"
    by simp
  from len have "\<not> length (written (F\<lparr>stack := ?rest\<rparr>)) < 2 ^ 32"
    by (simp add: finish_def written_def)
  then have "\<exists>w. join (F\<lparr>stack := ?rest\<rparr>) = Inl (RangeError, w)"
    by (simp add: join_unfold)
  with 1 show ?thesis
    by (auto simp: writes_append)
qed

text \<open>
  C4. Let the writes \<open>W\<close> run without error on a new writer and leave its fork stack empty,
  with output \<open>out\<close>. If \<open>out\<close> is shorter than \<open>2^32\<close> bytes, then \<open>fork(); W; join()\<close> on any
  writer state \<open>S\<close> succeeds, its bytes are those of \<open>S\<close>, then the varint that \<open>uint32\<close> writes
  for the length of \<open>out\<close>, then \<open>out\<close>, and the fork stack of \<open>S\<close> is restored; \<open>W\<close> alone on
  \<open>S\<close> gives the bytes of \<open>S\<close> followed by \<open>out\<close>. If \<open>out\<close> is longer, \<open>join()\<close> fails with
  \<open>RangeError\<close>.
\<close>

theorem fork_join_prepends_length:
  assumes "writes d W (new_BinaryWriter (textEncoder S)) = Inr F" and "stack F = []"
  shows "(length (fst (finish F)) < 2 ^ 32 \<longrightarrow>
           (\<exists>S' S''. writes d (Fork # W @ [Join]) S = Inr S' \<and>
              fst (finish S') =
                fst (finish S) @ uint32_loop (word_of_nat (length (fst (finish F)))) @
                fst (finish F) \<and>
              stack S' = stack S \<and>
              writes d W S = Inr S'' \<and>
              fst (finish S'') = fst (finish S) @ fst (finish F))) \<and>
         (\<not> length (fst (finish F)) < 2 ^ 32 \<longrightarrow>
           (\<exists>w. writes d (Fork # W @ [Join]) S = Inl (RangeError, w)))"
  using fork_writes_join [OF assms] writes_on_state [OF assms] fork_writes_join_long [OF assms]
  by blast

theorem fork_join_prepends_length_witness:
  "\<exists>S'. writes \<lparr>PbLong_from = (\<lambda>v. Inl InvalidLongValue), PbULong_from = (\<lambda>v. Inl InvalidLongValue),
              setFloat32 = (\<lambda>v. []), setFloat64 = (\<lambda>v. [])\<rparr>
          (Fork # [Uint32 (Num 1)] @ [Join]) (raw [7] (new_BinaryWriter (\<lambda>s. []))) = Inr S' \<and>
        fst (finish S') = [7, 1, 1]"
proof -
  let ?d = "\<lparr>PbLong_from = (\<lambda>v. Inl InvalidLongValue), PbULong_from = (\<lambda>v. Inl InvalidLongValue),
              setFloat32 = (\<lambda>v. []), setFloat64 = (\<lambda>v. [])\<rparr>"
  let ?S = "raw [7] (new_BinaryWriter (\<lambda>s. []))"
  let ?F = "(new_BinaryWriter (\<lambda>s. []))\<lparr>buf := [1]\<rparr>"
  have 1: "writes ?d [Uint32 (Num 1)] (new_BinaryWriter (textEncoder ?S)) = Inr ?F"
    by (simp add: uint32_one new_BinaryWriter_def)
  have 2: "stack ?F = []"
    by (simp add: new_BinaryWriter_def)
  have 3: "fst (finish ?F) = [1]" "fst (finish ?S) = [7]"
    by (simp_all add: finish_def new_BinaryWriter_def raw_def)
  have 4: "uint32_loop (word_of_nat (length [1 :: byte])) = [1]"
    by (simp add: uint32_loop.simps)
  from fork_join_prepends_length [OF 1 2] show ?thesis
    unfolding 3 using 4 by auto
qed

text \<open>
  Without the bound on the length the claim fails: for a chunk of \<open>2^32\<close> bytes written with
  \<open>raw\<close>, \<open>join()\<close> throws at \<open>uint32(chunk.byteLength)\<close>.
\<close>

theorem fork_join_long_chunk:
  "\<not> (\<forall>d W S F. writes d W (new_BinaryWriter (textEncoder S)) = Inr F \<and> stack F = [] \<longrightarrow>
        (\<exists>S'. writes d (Fork # W @ [Join]) S = Inr S' \<and>
           fst (finish S') =
             fst (finish S) @ uint32_loop (word_of_nat (length (fst (finish F)))) @
             fst (finish F)))"
proof
  assume a: "\<forall>d W S F. writes d W (new_BinaryWriter (textEncoder S)) = Inr F \<and> stack F = [] \<longrightarrow>
        (\<exists>S'. writes d (Fork # W @ [Join]) S = Inr S' \<and>
           fst (finish S') =
             fst (finish S) @ uint32_loop (word_of_nat (length (fst (finish F)))) @
             fst (finish F))"
  define big :: bytes where "big = replicate (2 ^ 32) 0"
  have lb: "length big = 2 ^ 32"
    unfolding big_def by (rule length_replicate)
  let ?d = "\<lparr>PbLong_from = (\<lambda>v. Inl InvalidLongValue), PbULong_from = (\<lambda>v. Inl InvalidLongValue),
              setFloat32 = (\<lambda>v. []), setFloat64 = (\<lambda>v. [])\<rparr>"
  let ?S = "new_BinaryWriter (\<lambda>s. [])"
  let ?F = "raw big ?S"
  have 1: "writes ?d [Raw big] (new_BinaryWriter (textEncoder ?S)) = Inr ?F"
    by (simp add: new_BinaryWriter_def)
  have 2: "stack ?F = []"
    by (simp add: new_BinaryWriter_def)
  have 3: "\<not> length (fst (finish ?F)) < 2 ^ 32"
    by (simp add: fst_finish lb)
  from fork_writes_join_long [OF 1 2 3] obtain w
    where "writes ?d (Fork # [Raw big] @ [Join]) ?S = Inl (RangeError, w)"
    by blast
  moreover from a 1 2 obtain S' where "writes ?d (Fork # [Raw big] @ [Join]) ?S = Inr S'"
    by blast
  ultimately show False
    by simp
qed

section \<open>Properties of the reader\<close>

lemma varint_parse_numeral [simp]:
  "varint_parse (numeral k) [] = Inl MalformedVarint"
  "varint_parse (numeral k) (b # bs) =
     (if b AND 0x80 = 0 then Inr (ucast b, 1)
      else (case varint_parse (pred_numeral k) bs of
              Inl e \<Rightarrow> Inl e
            | Inr (v, n) \<Rightarrow> Inr (ucast (b AND 0x7f) OR push_bit 7 v, Suc n)))"
  by (simp_all add: numeral_eq_Suc)

lemma read_loop_Suc:
  "pos r < endpos \<Longrightarrow>
     read_loop (Suc m) types info options endpos r message =
       (case read_one m
               (\<lambda>T r' l opts t.
                  internalBinaryRead (read_loop m types (types T) opts) (create (types T)) r' l t)
               (\<lambda>T. create (types T)) info options r message of
          None \<Rightarrow> None
        | Some (Inl e) \<Rightarrow> Some (Inl e)
        | Some (Inr (message', r')) \<Rightarrow> read_loop m types info options endpos r' message')"
  by (simp add: read_loop.simps)

lemma read_loop_done:
  "\<not> pos r < endpos \<Longrightarrow>
     read_loop n types info options endpos r message = Some (Inr (message, r))"
  by (simp add: read_loop.simps)

lemma consume_Inr:
  "consume p r = Inr (v, r') \<Longrightarrow> \<exists>n. p (drop (pos r) (data r)) = Inr (v, n) \<and> r' = r\<lparr>pos := pos r + n\<rparr>"
  by (auto simp: consume_def split: sum.splits)

lemma varint_scan_le: "varint_scan bs = Inr (m, n) \<Longrightarrow> n \<le> length bs"
  by (induction bs arbitrary: m n) (auto split: if_splits sum.splits)

lemma skip_parse_raw:
  assumes "skip_parse wireType bs = Inr (d, n)"
  shows "d = take n bs \<and> n \<le> length bs"
proof -
  have fixed: "fixed_parse k bs = Inr (d, n) \<Longrightarrow> d = take n bs \<and> n \<le> length bs" for k
    by (auto simp: fixed_parse_def split: if_splits)
  have delim: "delimited_parse bs = Inr (c, n) \<Longrightarrow> n \<le> length bs" for c
    by (auto simp: delimited_parse_def Let_def split: sum.splits if_splits)
  from assms show ?thesis
    by (auto simp: skip_parse_def split: if_splits sum.splits dest: fixed varint_scan_le delim)
qed

lemma reader_skip_raw:
  assumes "reader_skip wireType r = Inr (d, r')"
  shows "data r' = data r \<and> pos r' = pos r + length d \<and> d = take (length d) (drop (pos r) (data r))"
proof -
  from assms obtain n where p: "skip_parse wireType (drop (pos r) (data r)) = Inr (d, n)"
    and r': "r' = r\<lparr>pos := pos r + n\<rparr>"
    unfolding reader_skip_def by (blast dest: consume_Inr)
  from skip_parse_raw [OF p] have "d = take n (drop (pos r) (data r))" "n \<le> length (drop (pos r) (data r))"
    by simp_all
  then have "length d = n"
    by simp
  with r' \<open>d = take n (drop (pos r) (data r))\<close> show ?thesis
    by simp
qed

lemma varint_scan_shape:
  "varint_scan bs = Inr (m, n) \<Longrightarrow>
     take n bs \<noteq> [] \<and> last (take n bs) AND 0x80 = 0 \<and>
     list_all (\<lambda>b. b AND 0x80 \<noteq> 0) (butlast (take n bs))"
proof (induction bs arbitrary: m n)
  case Nil
  then show ?case
    by simp
next
  case (Cons b bs)
  show ?case
  proof (cases "b AND 0x80 = 0")
    case True
    with Cons.prems show ?thesis
      by auto
  next
    case False
    with Cons.prems obtain m' n' where s: "varint_scan bs = Inr (m', n')" and n: "n = Suc n'"
      by (auto split: sum.splits)
    from Cons.IH [OF s] n False show ?thesis
      by auto
  qed
qed

lemma skip_parse_skipped:
  assumes "skip_parse wireType bs = Inr (d, n)"
  shows "skipped wireType bs d"
proof -
  from skip_parse_raw [OF assms] have d: "d = take n bs" and n: "n \<le> length bs"
    by simp_all
  then have l: "length d = n"
    by simp
  show ?thesis
  proof (cases "wireType = Varint")
    case True
    with assms obtain m where "varint_scan bs = Inr (m, n)"
      by (auto simp: skip_parse_def split: sum.splits)
    from varint_scan_shape [OF this] True d show ?thesis
      by (simp add: skipped_def)
  next
    case False
    with assms l show ?thesis
      by (auto simp: skip_parse_def skipped_def fixed_parse_def delimited_parse_def Let_def
          Varint_def Bit64_def Bit32_def LengthDelimited_def
          split: sum.splits if_splits)
  qed
qed

lemma reader_skip_skipped:
  assumes "reader_skip wireType r = Inr (d, r')"
  shows "skipped wireType (drop (pos r) (data r)) d"
proof -
  from assms obtain n where "skip_parse wireType (drop (pos r) (data r)) = Inr (d, n)"
    unfolding reader_skip_def by (blast dest: consume_Inr)
  then show ?thesis
    by (rule skip_parse_skipped)
qed

text \<open>
  C6. When the loop of \<open>read\<close> meets a tag whose field number has no field, the cursor
  \<open>r1\<close> after the tag being the cursor \<open>r\<close> advanced by the varint of the tag: with \<open>"throw"\<close> it
  fails with \<open>UnknownField\<close> carrying the type name, the field number and the wire type, and
  leaves the cursor at \<open>r1\<close>, so that nothing of the value is consumed; otherwise it skips
  the value, and fails as \<open>skip\<close> does when that fails; the bytes \<open>d\<close> skipped are those of the
  value, as the wire type has it; with \<open>false\<close> the message is unchanged, with \<open>true\<close> it is
  what the default recorder makes of it given \<open>d\<close>, with a function \<open>f\<close> it is what \<open>f\<close> makes
  of \<open>(typeName, message, fieldNo, wireType, d)\<close>; and the loop goes on after the value.
\<close>

theorem unknown_field_policy:
  assumes "pos r < endpos"
    and "reader_tag r = Inr ((fieldNo, wireType), r1)"
    and "fieldNoToField info fieldNo = None"
  shows "(case read_varint (drop (pos r) (data r)) of
            Inl e \<Rightarrow> False
          | Inr (v, k) \<Rightarrow> r1 = r\<lparr>pos := pos r + k\<rparr>) \<and>
         (readUnknownField options = RUF_throw \<longrightarrow>
            read_loop (Suc n) types info options endpos r message =
              Some (Inl (UnknownField (typeName info) fieldNo wireType, r1))) \<and>
         (readUnknownField options \<noteq> RUF_throw \<longrightarrow>
            (\<forall>e. reader_skip wireType r1 = Inl e \<longrightarrow>
               read_loop (Suc n) types info options endpos r message = Some (Inl e)) \<and>
            (\<forall>d r2. reader_skip wireType r1 = Inr (d, r2) \<longrightarrow>
               data r2 = data r1 \<and> pos r2 = pos r1 + length d \<and>
               d = take (length d) (drop (pos r1) (data r1)) \<and>
               skipped wireType (drop (pos r1) (data r1)) d \<and>
               read_loop (Suc n) types info options endpos r message =
                 read_loop n types info options endpos r2
                   (case readUnknownField options of
                      RUF_false \<Rightarrow> message
                    | RUF_true \<Rightarrow> onRead (typeName info) message fieldNo wireType d
                    | RUF_callable f \<Rightarrow> f (typeName info) message fieldNo wireType d
                    | RUF_throw \<Rightarrow> message)))"
proof (intro conjI)
  from assms(2) show "case read_varint (drop (pos r) (data r)) of
      Inl e \<Rightarrow> False
    | Inr (v, k) \<Rightarrow> r1 = r\<lparr>pos := pos r + k\<rparr>"
    by (auto simp: reader_tag_def reader_uint32_def returning_def consume_def split: sum.splits)
qed (use assms in \<open>auto simp: read_loop_Suc read_one_def read_unknown_def
      dest: reader_skip_raw reader_skip_skipped split: readUnknownField_option.splits\<close>)

lemma get_prop_simps [simp]:
  "get_prop [] k' = None"
  "get_prop ((k, v) # m) k' = (if k' = k then Some v else get_prop m k')"
  by (auto simp: get_prop_def)

lemma get_set_prop: "get_prop (set_prop k v m) k' = (if k' = k then Some v else get_prop m k')"
  by (induction m) (auto simp: get_prop_def)




lemma set_prop_twice [simp]: "set_prop k v (set_prop k v' m) = set_prop k v m"
  by (induction m) auto

lemma read_message_singular:
  assumes "pos r < endpos"
    and "reader_tag r = Inr ((fieldNo, wireType), r1)"
    and "fieldNoToField info fieldNo = Some field"
    and "kind field = K_message T" and "repeat field = NO"
    and "select_target field message = Inr target"
    and "reader_uint32 r1 = Inr (l, r2)"
    and "is_target (get_prop target (localName field))"
    and "read_loop n types (types T) options (pos r2 + l) r2
           (merge_target (types T) (get_prop target (localName field))) = Some (Inr (msg, r3))"
  shows "read_loop (Suc n) types info options endpos r message =
           read_loop n types info options endpos r3
             (store_target field message (set_prop (localName field) (VObject msg) target))"
  using assms
  by (auto simp: read_loop_Suc read_one_def read_field_def read_message_def internalBinaryRead_def
      merge_target_def is_target_def split: option.splits val.splits)

lemma read_message_repeated:
  assumes "pos r < endpos"
    and "reader_tag r = Inr ((fieldNo, wireType), r1)"
    and "fieldNoToField info fieldNo = Some field"
    and "kind field = K_message T" and "repeat field \<noteq> NO"
    and "select_target field message = Inr target"
    and "reader_uint32 r1 = Inr (l, r2)"
    and "get_prop target (localName field) = Some (VArray arr)"
    and "read_loop n types (types T) options (pos r2 + l) r2 (create (types T)) =
           Some (Inr (msg, r3))"
  shows "read_loop (Suc n) types info options endpos r message =
           read_loop n types info options endpos r3
             (store_target field message
               (set_prop (localName field) (VArray (arr @ [VObject msg])) target))"
  using assms
  by (auto simp: read_loop_Suc read_one_def read_field_def read_message_def internalBinaryRead_def
      push_def)

lemma select_target_plain [simp]: "oneof field = None \<Longrightarrow> select_target field message = Inr message"
  by (simp add: select_target_def)

lemma store_target_plain [simp]: "oneof field = None \<Longrightarrow> store_target field message target = target"
  by (simp add: store_target_def)

text \<open>
  C2. When the loop of \<open>read\<close> is at the tag and the varint length \<open>l\<close> of a message field:
  for a singular field, the nested message is read from the \<open>l\<close> bytes that follow into the
  message the target holds under \<open>localName\<close>, or into \<open>create()\<close> when it holds none, and
  the result is stored under \<open>localName\<close>; for a repeated field it is read into \<open>create()\<close>
  and appended to the array. So two occurrences of a singular field are read one into the
  result of the other, and the message holds the merged result.
\<close>

theorem message_field_merges:
  assumes "kind field = K_message T"
    and "pos r < endpos" and "at_message_field info field r r2 l"
  shows "(repeat field = NO \<longrightarrow>
            (\<forall>target msg r3.
               select_target field message = Inr target \<longrightarrow>
               is_target (get_prop target (localName field)) \<longrightarrow>
               read_loop n types (types T) options (pos r2 + l) r2
                 (merge_target (types T) (get_prop target (localName field))) =
                 Some (Inr (msg, r3)) \<longrightarrow>
               read_loop (Suc n) types info options endpos r message =
                 read_loop n types info options endpos r3
                   (store_target field message
                      (set_prop (localName field) (VObject msg) target)))) \<and>
         (repeat field \<noteq> NO \<longrightarrow>
            (\<forall>target arr msg r3.
               select_target field message = Inr target \<longrightarrow>
               get_prop target (localName field) = Some (VArray arr) \<longrightarrow>
               read_loop n types (types T) options (pos r2 + l) r2 (create (types T)) =
                 Some (Inr (msg, r3)) \<longrightarrow>
               read_loop (Suc n) types info options endpos r message =
                 read_loop n types info options endpos r3
                   (store_target field message
                      (set_prop (localName field) (VArray (arr @ [VObject msg])) target)))) \<and>
         (repeat field = NO \<and> oneof field = None \<longrightarrow>
            (\<forall>t1 r3 r5 l' t2 r6.
               is_target (get_prop message (localName field)) \<longrightarrow>
               read_loop (Suc n) types (types T) options (pos r2 + l) r2
                 (merge_target (types T) (get_prop message (localName field))) =
                 Some (Inr (t1, r3)) \<longrightarrow>
               pos r3 < endpos \<longrightarrow> at_message_field info field r3 r5 l' \<longrightarrow>
               read_loop n types (types T) options (pos r5 + l') r5 t1 = Some (Inr (t2, r6)) \<longrightarrow>
               read_loop (Suc (Suc n)) types info options endpos r message =
                 read_loop n types info options endpos r6
                   (set_prop (localName field) (VObject t2) message)))"
proof (intro conjI impI allI)
  from assms(3) obtain wireType r1 where tag: "reader_tag r = Inr ((no field, wireType), r1)"
    and l: "reader_uint32 r1 = Inr (l, r2)" and f: "fieldNoToField info (no field) = Some field"
    by (auto simp: at_message_field_def)
  {
    fix target msg r3
    assume "repeat field = NO" "select_target field message = Inr target"
      "is_target (get_prop target (localName field))"
      "read_loop n types (types T) options (pos r2 + l) r2
         (merge_target (types T) (get_prop target (localName field))) = Some (Inr (msg, r3))"
    then show "read_loop (Suc n) types info options endpos r message =
        read_loop n types info options endpos r3
          (store_target field message (set_prop (localName field) (VObject msg) target))"
      using read_message_singular [OF assms(2) tag f assms(1)] l by blast
  }
  {
    fix target arr msg r3
    assume "repeat field \<noteq> NO" "select_target field message = Inr target"
      "get_prop target (localName field) = Some (VArray arr)"
      "read_loop n types (types T) options (pos r2 + l) r2 (create (types T)) = Some (Inr (msg, r3))"
    then show "read_loop (Suc n) types info options endpos r message =
        read_loop n types info options endpos r3
          (store_target field message
             (set_prop (localName field) (VArray (arr @ [VObject msg])) target))"
      using read_message_repeated [OF assms(2) tag f assms(1)] l by blast
  }
  {
    fix t1 r3 r5 l' t2 r6
    assume s: "repeat field = NO \<and> oneof field = None"
      and t: "is_target (get_prop message (localName field))"
      and n1: "read_loop (Suc n) types (types T) options (pos r2 + l) r2
         (merge_target (types T) (get_prop message (localName field))) = Some (Inr (t1, r3))"
      and p3: "pos r3 < endpos" and at: "at_message_field info field r3 r5 l'"
      and n2: "read_loop n types (types T) options (pos r5 + l') r5 t1 = Some (Inr (t2, r6))"
    from s have sel: "select_target field m = Inr m" for m
      by simp
    from at obtain wireType' r4 where tag': "reader_tag r3 = Inr ((no field, wireType'), r4)"
      and l': "reader_uint32 r4 = Inr (l', r5)"
      by (auto simp: at_message_field_def)
    let ?m1 = "set_prop (localName field) (VObject t1) message"
    from s have rs: "repeat field = NO"
      by simp
    have 1: "read_loop (Suc (Suc n)) types info options endpos r message =
        read_loop (Suc n) types info options endpos r3 ?m1"
      using read_message_singular [OF assms(2) tag f assms(1) rs sel l t n1] s by simp
    have g: "get_prop ?m1 (localName field) = Some (VObject t1)"
      by (simp add: get_set_prop)
    have it: "is_target (get_prop ?m1 (localName field))"
      by (simp add: g is_target_def)
    have n2': "read_loop n types (types T) options (pos r5 + l') r5
        (merge_target (types T) (get_prop ?m1 (localName field))) = Some (Inr (t2, r6))"
      using n2 by (simp add: g merge_target_def)
    have 2: "read_loop (Suc n) types info options endpos r3 ?m1 =
        read_loop n types info options endpos r6 (set_prop (localName field) (VObject t2) ?m1)"
      using read_message_singular [OF p3 tag' f assms(1) rs sel l' it n2'] s by simp
    from 1 2 show "read_loop (Suc (Suc n)) types info options endpos r message =
        read_loop n types info options endpos r6 (set_prop (localName field) (VObject t2) message)"
      by simp
  }
qed

lemmas reader_defs = reader_tag_def reader_uint32_def reader_int32_def consume_def returning_def
  read_varint_def low32_def

theorem unknown_field_policy_witness:
  "read_loop (Suc 0) (\<lambda>T. no_fields) no_fields \<lparr>readUnknownField = RUF_throw\<rparr> 3
     (cursor [0x08, 0x96, 0x01]) [] =
     Some (Inl (UnknownField ''Empty'' 1 0, (cursor [0x08, 0x96, 0x01])\<lparr>pos := 1\<rparr>)) \<and>
   read_loop (Suc 0) (\<lambda>T. no_fields) no_fields \<lparr>readUnknownField = RUF_true\<rparr> 3
     (cursor [0x08, 0x96, 0x01]) [] =
     Some (Inr ([(unknown_store,
                  VArray [VObject [(''no'', VNumber 1), (''wireType'', VNumber 0),
                                   (''data'', VBytes [0x96, 0x01])]])],
                (cursor [0x08, 0x96, 0x01])\<lparr>pos := 3\<rparr>))"
proof -
  let ?r = "cursor [0x08, 0x96, 0x01]"
  have p: "pos ?r < 3"
    by (simp add: cursor_def)
  have tag: "reader_tag ?r = Inr ((1, 0), ?r\<lparr>pos := 1\<rparr>)"
    by (simp add: reader_defs cursor_def)
  have unk: "fieldNoToField no_fields 1 = None"
    by (simp add: fieldNoToField_def no_fields_def)
  have skip: "reader_skip 0 (?r\<lparr>pos := 1\<rparr>) = Inr ([0x96, 0x01], ?r\<lparr>pos := 3\<rparr>)"
    by (simp add: reader_skip_def skip_parse_def Varint_def consume_def cursor_def)
  note T = unknown_field_policy [OF p tag unk]
  have 1: "read_loop (Suc 0) (\<lambda>T. no_fields) no_fields \<lparr>readUnknownField = RUF_throw\<rparr> 3 ?r [] =
      Some (Inl (UnknownField ''Empty'' 1 0, ?r\<lparr>pos := 1\<rparr>))"
    using T [of "\<lparr>readUnknownField = RUF_throw\<rparr>", THEN conjunct2, THEN conjunct1]
    by (simp add: no_fields_def)
  have 2: "read_loop (Suc 0) (\<lambda>T. no_fields) no_fields \<lparr>readUnknownField = RUF_true\<rparr> 3 ?r [] =
      read_loop 0 (\<lambda>T. no_fields) no_fields \<lparr>readUnknownField = RUF_true\<rparr> 3 (?r\<lparr>pos := 3\<rparr>)
        (onRead (typeName no_fields) [] 1 0 [0x96, 0x01])"
    using T [of "\<lparr>readUnknownField = RUF_true\<rparr>", THEN conjunct2, THEN conjunct2] skip by simp
  show ?thesis
    unfolding 1 2 by (simp add: read_loop_done cursor_def onRead_def no_fields_def)
qed

lemmas read_defs = read_one_def read_field_def read_scalar_def read_unknown_def
  select_target_def store_target_def fieldNoToField_def


theorem message_field_merges_witness:
  "read_loop (Suc (Suc 1)) (\<lambda>T. inner) outer \<lparr>readUnknownField = RUF_throw\<rparr> 8
     (cursor [0x0a, 0x02, 0x08, 0x01, 0x0a, 0x02, 0x10, 0x02]) [] =
   Some (Inr ([(''inner'', VObject [(''a'', VNumber 1), (''b'', VNumber 2)])],
              (cursor [0x0a, 0x02, 0x08, 0x01, 0x0a, 0x02, 0x10, 0x02])\<lparr>pos := 8\<rparr>))"
proof -
  let ?r = "cursor [0x0a, 0x02, 0x08, 0x01, 0x0a, 0x02, 0x10, 0x02]"
  let ?o = "\<lparr>readUnknownField = RUF_throw\<rparr>"
  have k: "kind inner_field = K_message ''Inner''"
    by (simp add: inner_field_def)
  have p: "pos ?r < 8"
    by (simp add: cursor_def)
  have at1: "at_message_field outer inner_field ?r (?r\<lparr>pos := 2\<rparr>) 2"
    by (simp add: at_message_field_def reader_defs cursor_def outer_def inner_field_def
        fieldNoToField_def)
  have s: "repeat inner_field = NO \<and> oneof inner_field = None"
    by (simp add: inner_field_def)
  have t: "is_target (get_prop [] (localName inner_field))"
    by (simp add: is_target_def)
  have n1: "read_loop (Suc 1) (\<lambda>T. inner) inner ?o (pos (?r\<lparr>pos := 2\<rparr>) + 2) (?r\<lparr>pos := 2\<rparr>)
      (merge_target inner (get_prop [] (localName inner_field))) =
      Some (Inr ([(''a'', VNumber 1), (''b'', VNumber 0)], ?r\<lparr>pos := 4\<rparr>))"
    by (simp add: read_loop.simps read_defs reader_defs cursor_def inner_def int32_field_def
        merge_target_def)
  have p3: "pos (?r\<lparr>pos := 4\<rparr>) < 8"
    by (simp add: cursor_def)
  have at2: "at_message_field outer inner_field (?r\<lparr>pos := 4\<rparr>) (?r\<lparr>pos := 6\<rparr>) 2"
    by (simp add: at_message_field_def reader_defs cursor_def outer_def inner_field_def
        fieldNoToField_def)
  have n2: "read_loop 1 (\<lambda>T. inner) inner ?o (pos (?r\<lparr>pos := 6\<rparr>) + 2) (?r\<lparr>pos := 6\<rparr>)
      [(''a'', VNumber 1), (''b'', VNumber 0)] =
      Some (Inr ([(''a'', VNumber 1), (''b'', VNumber 2)], ?r\<lparr>pos := 8\<rparr>))"
    by (simp add: read_loop.simps read_defs reader_defs cursor_def inner_def int32_field_def)
  from message_field_merges [OF k p at1, where types = "\<lambda>T. inner" and n = 1, THEN conjunct2,
      THEN conjunct2, THEN mp, OF s, THEN spec, THEN spec, THEN spec, THEN spec, THEN spec,
      THEN spec, THEN mp, OF t, THEN mp, OF n1, THEN mp, OF p3, THEN mp, OF at2, THEN mp, OF n2]
  show ?thesis
    by (simp add: read_loop_done cursor_def inner_field_def)
qed
lemma mapEntry_loop_done:
  "\<not> pos r < endpos \<Longrightarrow>
     mapEntry_loop n nest tn fname K V options endpos r key val = Some (Inr ((key, val), r))"
  by (simp add: mapEntry_loop.simps)

lemma mapEntry_loop_items:
  "entry_items nest K V options endpos r items \<Longrightarrow>
     mapEntry_loop (length items + k) nest tn fname K V options endpos r key val =
       mapEntry_loop k nest tn fname K V options endpos (end_of r items)
         (last_item 1 key items) (last_item 2 val items)"
proof (induction items arbitrary: r key val)
  case Nil
  then show ?case
    by simp
next
  case (Cons x xs)
  from Cons.prems have p: "pos r < endpos"
    and tag: "reader_tag r = Inr ((item_no x, item_wireType x), item_start x)"
    and rest: "entry_items nest K V options endpos (item_end x) xs"
    by simp_all
  show ?case
  proof (cases "item_no x = 1")
    case True
    with Cons.prems have "mapEntry_key K (item_start x) = Inr (item_value x, item_end x)"
      by simp
    with p tag True have "mapEntry_loop (length (x # xs) + k) nest tn fname K V options endpos r key val =
        mapEntry_loop (length xs + k) nest tn fname K V options endpos (item_end x)
          (Some (item_value x)) val"
      by (subst mapEntry_loop.simps) simp
    with Cons.IH [OF rest] True show ?thesis
      by simp
  next
    case False
    with Cons.prems have 2: "item_no x = 2"
      and "mapEntry_value nest V options (item_start x) = Some (Inr (item_value x, item_end x))"
      by simp_all
    with p tag False have "mapEntry_loop (length (x # xs) + k) nest tn fname K V options endpos r key val =
        mapEntry_loop (length xs + k) nest tn fname K V options endpos (item_end x)
          key (Some (item_value x))"
      by (subst mapEntry_loop.simps) simp
    with Cons.IH [OF rest] 2 show ?thesis
      by simp
  qed
qed

lemma key_default:
  "(let keyRaw = reflectionScalarDefault K None
    in if K = BOOL
       then (case keyRaw of VBoolean b \<Rightarrow> VString (boolean_toString b) | other \<Rightarrow> other)
       else keyRaw) = default_key K"
  by (simp add: default_key_def boolean_toString_def)

lemma mapEntry_items:
  assumes "reader_uint32 r = Inr (l, r1)"
    and "entry_items nest K V options (pos r1 + l) r1 items"
    and "\<not> pos (end_of r1 items) < pos r1 + l"
    and "length items \<le> n"
  shows "mapEntry n nest createOf tn fname K V options r =
           Some (Inr ((case last_item 1 None items of Some k \<Rightarrow> k | None \<Rightarrow> default_key K,
                       case last_item 2 None items of Some v \<Rightarrow> v
                       | None \<Rightarrow> default_value createOf V),
                      end_of r1 items))"
proof -
  from assms(4) obtain k where n: "n = length items + k"
    using le_Suc_ex by blast
  have "mapEntry_loop n nest tn fname K V options (pos r1 + l) r1 None None =
      Some (Inr ((last_item 1 None items, last_item 2 None items), end_of r1 items))"
    unfolding n mapEntry_loop_items [OF assms(2)] using assms(3) by (rule mapEntry_loop_done)
  with assms(1) show ?thesis
    by (simp add: mapEntry_def key_default default_value_def split: option.splits)
qed

lemma mapEntry_loop_other:
  assumes "pos r < endpos"
    and "reader_tag r = Inr ((fieldNo, wireType), r2)"
    and "fieldNo \<noteq> 1" and "fieldNo \<noteq> 2"
  shows "mapEntry_loop (Suc k) nest tn fname K V options endpos r key val =
      Some (Inl (MalformedMapEntry fieldNo wireType tn fname, r2))"
proof -
  from assms(3) have 1: "fieldNo \<noteq> Suc 0"
    by simp
  show ?thesis
    by (subst mapEntry_loop.simps) (simp add: assms(1,2,4) 1)
qed

lemma mapEntry_other_field:
  assumes "reader_uint32 r = Inr (l, r1)"
    and "entry_items nest K V options (pos r1 + l) r1 items"
    and "pos (end_of r1 items) < pos r1 + l"
    and "reader_tag (end_of r1 items) = Inr ((fieldNo, wireType), r2)"
    and "fieldNo \<noteq> 1" and "fieldNo \<noteq> 2"
    and "length items < n"
  shows "mapEntry n nest createOf tn fname K V options r =
           Some (Inl (MalformedMapEntry fieldNo wireType tn fname, r2))"
proof -
  from assms(7) obtain k where "n = Suc (length items + k)"
    using less_imp_Suc_add by blast
  then have n: "n = length items + Suc k"
    by simp
  have "mapEntry_loop n nest tn fname K V options (pos r1 + l) r1 None None =
      Some (Inl (MalformedMapEntry fieldNo wireType tn fname, r2))"
    unfolding n mapEntry_loop_items [OF assms(2)]
    using assms(3-6) by (rule mapEntry_loop_other)
  with assms(1) show ?thesis
    by (simp add: mapEntry_def)
qed

lemma last_item_occurrences:
  "last_item fieldNo cur items =
     (if occurrences fieldNo items = [] then cur else Some (last (occurrences fieldNo items)))"
  by (induction items arbitrary: cur) (auto simp: occurrences_def)

lemma returning_Inr:
  "returning f x = Inr (v, r') \<longleftrightarrow> (\<exists>u. x = Inr (u, r') \<and> v = f u)"
  by (auto simp: returning_def split: sum.splits)

lemma mapEntry_key_type:
  assumes "mapEntry_key K r = Inr (k, r')"
  shows "(K = BOOL \<longrightarrow> k = VString ''true'' \<or> k = VString ''false'') \<and>
         (valid_map_key K \<longrightarrow> string_or_number k)"
  using assms
  by (cases K)
    (auto simp: mapEntry_key_def valid_map_key_def returning_Inr boolean_toString_def
      reflectionLongConvert_def split: if_splits)

lemma default_key_type:
  "(K = BOOL \<longrightarrow> default_key K = VString ''false'') \<and>
   (valid_map_key K \<longrightarrow> string_or_number (default_key K))"
  by (cases K) (auto simp: default_key_def valid_map_key_def reflectionLongConvert_def)

lemma entry_items_key_type:
  assumes "entry_items nest K V options endpos r items"
    and "k \<in> set (occurrences 1 items)"
  shows "(K = BOOL \<longrightarrow> k = VString ''true'' \<or> k = VString ''false'') \<and>
         (valid_map_key K \<longrightarrow> string_or_number k)"
  using assms
proof (induction items arbitrary: r)
  case Nil
  then show ?case
    by (simp add: occurrences_def)
next
  case (Cons x xs)
  show ?case
  proof (cases "item_no x = 1 \<and> k = item_value x")
    case True
    with Cons.prems(1) have "mapEntry_key K (item_start x) = Inr (k, item_end x)"
      by simp
    then show ?thesis
      by (rule mapEntry_key_type)
  next
    case False
    with Cons.prems(2) have "k \<in> set (occurrences 1 xs)"
      by (auto simp: occurrences_def split: if_splits)
    moreover from Cons.prems(1) have "entry_items nest K V options endpos (item_end x) xs"
      by simp
    ultimately show ?thesis
      using Cons.IH by blast
  qed
qed

text \<open>
  C10. Let \<open>mapEntry\<close> read the length \<open>l\<close> and then, one after the other, the tagged key and
  value fields \<open>items\<close>, the last of which ends at the end of the \<open>l\<close> bytes or after it. Then
  \<open>mapEntry\<close> returns the value of the last key field and the value of the last value field
  (the default where there is none), with the cursor after the last field: every field has
  been read, and the values of the earlier ones are dropped.
\<close>

theorem map_entry_last_occurrence_wins:
  assumes "reader_uint32 r = Inr (l, r1)"
    and "entry_items nest K V options (pos r1 + l) r1 items"
    and "\<not> pos (end_of r1 items) < pos r1 + l"
    and "length items \<le> n"
  shows "mapEntry n nest createOf tn fname K V options r =
           Some (Inr ((if occurrences 1 items = [] then default_key K
                       else last (occurrences 1 items),
                       if occurrences 2 items = [] then default_value createOf V
                       else last (occurrences 2 items)),
                      end_of r1 items))"
  using mapEntry_items [OF assms, of createOf tn fname]
  by (simp add: last_item_occurrences)

lemmas entry_defs = entry_item_of_def mapEntry_key_def mapEntry_value_def reader_string_def
  reader_bool_def delimited_parse_def

theorem map_entry_last_occurrence_wins_witness:
  "mapEntry 4 (\<lambda>T r l opts t. None) (\<lambda>T. []) ''M'' ''m'' STRING (V_scalar INT32 None)
     \<lparr>readUnknownField = RUF_throw\<rparr>
     (cursor [0x0a, 0x0a, 0x01, 0x61, 0x0a, 0x01, 0x62, 0x10, 0x01, 0x10, 0x02]) =
   Some (Inr ((VString ''b'', VNumber 2),
              (cursor [0x0a, 0x0a, 0x01, 0x61, 0x0a, 0x01, 0x62, 0x10, 0x01, 0x10, 0x02])
                \<lparr>pos := 11\<rparr>))"
proof -
  let ?r = "cursor [0x0a, 0x0a, 0x01, 0x61, 0x0a, 0x01, 0x62, 0x10, 0x01, 0x10, 0x02]"
  let ?items = "[entry_item_of 1 2 (?r\<lparr>pos := 2\<rparr>) (VString ''a'') (?r\<lparr>pos := 4\<rparr>),
                 entry_item_of 1 2 (?r\<lparr>pos := 5\<rparr>) (VString ''b'') (?r\<lparr>pos := 7\<rparr>),
                 entry_item_of 2 0 (?r\<lparr>pos := 8\<rparr>) (VNumber 1) (?r\<lparr>pos := 9\<rparr>),
                 entry_item_of 2 0 (?r\<lparr>pos := 10\<rparr>) (VNumber 2) (?r\<lparr>pos := 11\<rparr>)]"
  have u: "reader_uint32 ?r = Inr (10, ?r\<lparr>pos := 1\<rparr>)"
    by (simp add: reader_defs cursor_def)
  have i: "entry_items (\<lambda>T r l opts t. None) STRING (V_scalar INT32 None)
      \<lparr>readUnknownField = RUF_throw\<rparr> (pos (?r\<lparr>pos := 1\<rparr>) + 10) (?r\<lparr>pos := 1\<rparr>) ?items"
    by (simp add: entry_defs reader_defs cursor_def)
  have e: "\<not> pos (end_of (?r\<lparr>pos := 1\<rparr>) ?items) < pos (?r\<lparr>pos := 1\<rparr>) + 10"
    by (simp add: entry_item_of_def cursor_def)
  have n: "length ?items \<le> 4"
    by simp
  from map_entry_last_occurrence_wins [OF u i e n] show ?thesis
    by (simp add: occurrences_def entry_item_of_def)
qed

lemma reads_key_mapEntry_key:
  "reads_key K s k e \<Longrightarrow> mapEntry_key K s = Inr (k, e)"
  by (auto simp: reads_key_def mapEntry_key_def returning_def boolean_toString_def
      split: if_splits)

lemma reads_value_mapEntry_value:
  "reads_value nest V options s v e \<Longrightarrow> mapEntry_value nest V options s = Some (Inr (v, e))"
  by (auto simp: reads_value_def mapEntry_value_def returning_def
      split: map_value_info.splits sum.splits option.splits)

lemma entry_fields_items:
  "entry_fields nest K V options endpos r items \<Longrightarrow> entry_items nest K V options endpos r items"
  by (induction items arbitrary: r)
    (auto simp: reads_key_mapEntry_key reads_value_mapEntry_value split: if_splits)

text \<open>
  C7. Let \<open>mapEntry\<close> read the length \<open>l\<close>, and let the key and value fields \<open>items\<close> follow
  one another from there, each a tag of number 1 with what the cursor reads as a key of type
  \<open>K\<close> (a \<open>BOOL\<close> key being the bool read, as \<open>"true"\<close> or \<open>"false"\<close>), or a tag of number 2 with
  what the cursor reads as a value of \<open>V\<close>. If a tag with a field number other than 1 and 2
  follows before the end of the \<open>l\<close> bytes, \<open>mapEntry\<close> fails with \<open>MalformedMapEntry\<close>, the
  cursor after that tag. If the fields reach the end, \<open>mapEntry\<close> returns the key and the
  value that were read, with the cursor after the fields: the key is the zero value of the
  key type when no key field was read (for \<open>BOOL\<close> the string \<open>"false"\<close>), the value is the zero
  value of the value type when no value field was read (the scalar default, \<open>0\<close> for an enum,
  \<open>create()\<close> for a message); a \<open>BOOL\<close> key is the string \<open>"true"\<close> or \<open>"false"\<close>, and the key
  of every key type but the floating point types and \<open>BYTES\<close> is a string or a number.
\<close>

theorem map_entry_decode:
  assumes "reader_uint32 r = Inr (l, r1)"
    and "entry_fields nest K V options (pos r1 + l) r1 items"
  shows "(pos (end_of r1 items) < pos r1 + l \<and>
          reader_tag (end_of r1 items) = Inr ((fieldNo, wireType), r2) \<and>
          fieldNo \<noteq> 1 \<and> fieldNo \<noteq> 2 \<and> length items < n \<longrightarrow>
            mapEntry n nest createOf tn fname K V options r =
              Some (Inl (MalformedMapEntry fieldNo wireType tn fname, r2))) \<and>
         (\<not> pos (end_of r1 items) < pos r1 + l \<and> length items \<le> n \<longrightarrow>
            mapEntry n nest createOf tn fname K V options r =
              Some (Inr ((if occurrences 1 items = [] then default_key K
                          else last (occurrences 1 items),
                          if occurrences 2 items = [] then default_value createOf V
                          else last (occurrences 2 items)),
                         end_of r1 items)) \<and>
            (K = BOOL \<longrightarrow>
               (if occurrences 1 items = [] then default_key K else last (occurrences 1 items))
                 \<in> {VString ''true'', VString ''false''}) \<and>
            (valid_map_key K \<longrightarrow>
               string_or_number (if occurrences 1 items = [] then default_key K
                                 else last (occurrences 1 items)))) \<and>
         default_key K = (if K = BOOL then VString ''false'' else reflectionScalarDefault K None) \<and>
         default_value createOf V_enum = VNumber 0 \<and>
         (\<forall>T L. default_value createOf (V_scalar T L) = reflectionScalarDefault T L) \<and>
         (\<forall>T. default_value createOf (V_message T) = VObject (createOf T))"
proof (intro conjI allI impI)
  note items = entry_fields_items [OF assms(2)]
  {
    assume "pos (end_of r1 items) < pos r1 + l \<and>
          reader_tag (end_of r1 items) = Inr ((fieldNo, wireType), r2) \<and>
          fieldNo \<noteq> 1 \<and> fieldNo \<noteq> 2 \<and> length items < n"
    then show "mapEntry n nest createOf tn fname K V options r =
              Some (Inl (MalformedMapEntry fieldNo wireType tn fname, r2))"
      using mapEntry_other_field [OF assms(1) items] by blast
  next
    assume e: "\<not> pos (end_of r1 items) < pos r1 + l \<and> length items \<le> n"
    then show "mapEntry n nest createOf tn fname K V options r =
              Some (Inr ((if occurrences 1 items = [] then default_key K
                          else last (occurrences 1 items),
                          if occurrences 2 items = [] then default_value createOf V
                          else last (occurrences 2 items)),
                         end_of r1 items))"
      using mapEntry_items [OF assms(1) items, of n createOf tn fname]
      by (simp add: last_item_occurrences)
  next
    assume "K = BOOL"
    show "(if occurrences 1 items = [] then default_key K else last (occurrences 1 items))
                 \<in> {VString ''true'', VString ''false''}"
    proof (cases "occurrences 1 items = []")
      case True
      then show ?thesis
        using default_key_type [of K] \<open>K = BOOL\<close> by simp
    next
      case False
      then have "last (occurrences 1 items) \<in> set (occurrences 1 items)"
        by simp
      from entry_items_key_type [OF items this] False \<open>K = BOOL\<close> show ?thesis
        by auto
    qed
  next
    assume "valid_map_key K"
    show "string_or_number (if occurrences 1 items = [] then default_key K
                                 else last (occurrences 1 items))"
    proof (cases "occurrences 1 items = []")
      case True
      then show ?thesis
        using default_key_type [of K] \<open>valid_map_key K\<close> by simp
    next
      case False
      then have "last (occurrences 1 items) \<in> set (occurrences 1 items)"
        by simp
      from entry_items_key_type [OF items this] False \<open>valid_map_key K\<close> show ?thesis
        by simp
    qed
  }
qed (simp_all add: default_key_def default_value_def)

theorem map_entry_decode_witness:
  "mapEntry 2 (\<lambda>T r l opts t. None) (\<lambda>T. []) ''M'' ''m'' BOOL (V_scalar INT32 None)
     \<lparr>readUnknownField = RUF_throw\<rparr> (cursor [0x04, 0x08, 0x01, 0x10, 0x05]) =
     Some (Inr ((VString ''true'', VNumber 5),
                (cursor [0x04, 0x08, 0x01, 0x10, 0x05])\<lparr>pos := 5\<rparr>)) \<and>
   mapEntry 0 (\<lambda>T r l opts t. None) (\<lambda>T. []) ''M'' ''m'' BOOL (V_scalar INT32 None)
     \<lparr>readUnknownField = RUF_throw\<rparr> (cursor [0x00]) =
     Some (Inr ((VString ''false'', VNumber 0), (cursor [0x00])\<lparr>pos := 1\<rparr>)) \<and>
   mapEntry 2 (\<lambda>T r l opts t. None) (\<lambda>T. []) ''M'' ''m'' BOOL (V_scalar INT32 None)
     \<lparr>readUnknownField = RUF_throw\<rparr> (cursor [0x04, 0x08, 0x00, 0x18, 0x01]) =
     Some (Inl (MalformedMapEntry 3 0 ''M'' ''m'',
                (cursor [0x04, 0x08, 0x00, 0x18, 0x01])\<lparr>pos := 4\<rparr>)) \<and>
   mapEntry 1 (\<lambda>T r l opts t. None) (\<lambda>T. create inner) ''M'' ''m'' UINT32 (V_message ''Inner'')
     \<lparr>readUnknownField = RUF_throw\<rparr> (cursor [0x02, 0x08, 0x07]) =
     Some (Inr ((VNumber 7, VObject [(''a'', VNumber 0), (''b'', VNumber 0)]),
                (cursor [0x02, 0x08, 0x07])\<lparr>pos := 3\<rparr>))"
proof (intro conjI)
  let ?nest = "\<lambda>T r l opts t. None :: obj outcome"
  let ?o = "\<lparr>readUnknownField = RUF_throw\<rparr>"
  let ?V = "V_scalar INT32 None"
  {
    let ?r = "cursor [0x04, 0x08, 0x01, 0x10, 0x05]"
    let ?items = "[entry_item_of 1 0 (?r\<lparr>pos := 2\<rparr>) (VString ''true'') (?r\<lparr>pos := 3\<rparr>),
                   entry_item_of 2 0 (?r\<lparr>pos := 4\<rparr>) (VNumber 5) (?r\<lparr>pos := 5\<rparr>)]"
    have u: "reader_uint32 ?r = Inr (4, ?r\<lparr>pos := 1\<rparr>)"
      by (simp add: reader_defs cursor_def)
    have i: "entry_fields ?nest BOOL ?V ?o (pos (?r\<lparr>pos := 1\<rparr>) + 4) (?r\<lparr>pos := 1\<rparr>) ?items"
      by (simp add: entry_item_of_def reads_key_def reads_value_def reader_bool_def reader_defs
          cursor_def)
    have e: "\<not> pos (end_of (?r\<lparr>pos := 1\<rparr>) ?items) < pos (?r\<lparr>pos := 1\<rparr>) + 4 \<and>
        length ?items \<le> 2"
      by (simp add: entry_item_of_def cursor_def)
    from map_entry_decode [OF u i, of _ _ _ 2 "\<lambda>T. []" "''M''" "''m''", THEN conjunct2,
        THEN conjunct1, THEN mp, OF e, THEN conjunct1]
    show "mapEntry 2 ?nest (\<lambda>T. []) ''M'' ''m'' BOOL ?V ?o ?r =
        Some (Inr ((VString ''true'', VNumber 5), ?r\<lparr>pos := 5\<rparr>))"
      by (simp add: occurrences_def entry_item_of_def)
  next
    let ?r = "cursor [0x00]"
    have u: "reader_uint32 ?r = Inr (0, ?r\<lparr>pos := 1\<rparr>)"
      by (simp add: reader_defs cursor_def)
    have i: "entry_fields ?nest BOOL ?V ?o (pos (?r\<lparr>pos := 1\<rparr>) + 0) (?r\<lparr>pos := 1\<rparr>) []"
      by simp
    have e: "\<not> pos (end_of (?r\<lparr>pos := 1\<rparr>) []) < pos (?r\<lparr>pos := 1\<rparr>) + 0 \<and>
        length ([] :: entry_item list) \<le> 0"
      by simp
    from map_entry_decode [OF u i, of _ _ _ 0 "\<lambda>T. []" "''M''" "''m''", THEN conjunct2,
        THEN conjunct1, THEN mp, OF e, THEN conjunct1]
    show "mapEntry 0 ?nest (\<lambda>T. []) ''M'' ''m'' BOOL ?V ?o ?r =
        Some (Inr ((VString ''false'', VNumber 0), ?r\<lparr>pos := 1\<rparr>))"
      by (simp add: occurrences_def default_key_def default_value_def)
  next
    let ?r = "cursor [0x04, 0x08, 0x00, 0x18, 0x01]"
    let ?items = "[entry_item_of 1 0 (?r\<lparr>pos := 2\<rparr>) (VString ''false'') (?r\<lparr>pos := 3\<rparr>)]"
    have u: "reader_uint32 ?r = Inr (4, ?r\<lparr>pos := 1\<rparr>)"
      by (simp add: reader_defs cursor_def)
    have i: "entry_fields ?nest BOOL ?V ?o (pos (?r\<lparr>pos := 1\<rparr>) + 4) (?r\<lparr>pos := 1\<rparr>) ?items"
      by (simp add: entry_item_of_def reads_key_def reader_bool_def reader_defs cursor_def)
    have t: "pos (end_of (?r\<lparr>pos := 1\<rparr>) ?items) < pos (?r\<lparr>pos := 1\<rparr>) + 4 \<and>
        reader_tag (end_of (?r\<lparr>pos := 1\<rparr>) ?items) = Inr ((3, 0), ?r\<lparr>pos := 4\<rparr>) \<and>
        (3::nat) \<noteq> 1 \<and> (3::nat) \<noteq> 2 \<and> length ?items < 2"
      by (simp add: entry_item_of_def reader_defs cursor_def)
    from map_entry_decode [OF u i, THEN conjunct1, THEN mp, OF t]
    show "mapEntry 2 ?nest (\<lambda>T. []) ''M'' ''m'' BOOL ?V ?o ?r =
        Some (Inl (MalformedMapEntry 3 0 ''M'' ''m'', ?r\<lparr>pos := 4\<rparr>))" .
  next
    let ?r = "cursor [0x02, 0x08, 0x07]"
    let ?items = "[entry_item_of 1 0 (?r\<lparr>pos := 2\<rparr>) (VNumber 7) (?r\<lparr>pos := 3\<rparr>)]"
    have u: "reader_uint32 ?r = Inr (2, ?r\<lparr>pos := 1\<rparr>)"
      by (simp add: reader_defs cursor_def)
    have i: "entry_fields ?nest UINT32 (V_message ''Inner'') ?o (pos (?r\<lparr>pos := 1\<rparr>) + 2)
        (?r\<lparr>pos := 1\<rparr>) ?items"
      by (simp add: entry_item_of_def reads_key_def reader_defs cursor_def)
    have e: "\<not> pos (end_of (?r\<lparr>pos := 1\<rparr>) ?items) < pos (?r\<lparr>pos := 1\<rparr>) + 2 \<and>
        length ?items \<le> 1"
      by (simp add: entry_item_of_def cursor_def)
    from map_entry_decode [OF u i, of _ _ _ 1 "\<lambda>T. create inner" "''M''" "''m''", THEN conjunct2,
        THEN conjunct1, THEN mp, OF e, THEN conjunct1]
    show "mapEntry 1 ?nest (\<lambda>T. create inner) ''M'' ''m'' UINT32 (V_message ''Inner'') ?o ?r =
        Some (Inr ((VNumber 7, VObject [(''a'', VNumber 0), (''b'', VNumber 0)]), ?r\<lparr>pos := 3\<rparr>))"
      by (simp add: occurrences_def entry_item_of_def default_value_def inner_def)
  }
qed

section \<open>Packed and unpacked repeated scalar fields\<close>

lemma uint32_loop_length: "unat v < 2 ^ (7 * Suc k) \<Longrightarrow> length (uint32_loop v) \<le> Suc k"
proof (induction k arbitrary: v)
  case 0
  then have "\<not> v > 0x7f"
    by (simp add: word_less_nat_alt)
  then show ?case
    by (simp add: uint32_loop.simps)
next
  case (Suc k)
  have "unat (drop_bit 7 v) < 2 ^ (7 * Suc k)"
    using Suc.prems by (simp add: unat_drop_bit_eq drop_bit_eq_div unat_div power_add less_mult_imp_div_less)
  from Suc.IH [OF this] show ?case
    by (subst uint32_loop.simps) simp
qed

lemma uint32_loop_length_5: "length (uint32_loop v) \<le> 5"
proof -
  have "unat v < 2 ^ 32"
    using unsigned_less [of v, where 'a = nat] by simp
  also have "\<dots> < (2::nat) ^ (7 * Suc 4)"
    by simp
  finally show ?thesis
    using uint32_loop_length [of v 4] by simp
qed

lemma x7f: "(0x7f :: 'a::len word) = mask 7"
  by (simp add: mask_eq_exp_minus_1)

lemma x80: "(0x80 :: 'a::len word) = 2 ^ 7"
  by simp

lemma varint_low_byte_gen:
  "k < 8 \<Longrightarrow>
     ucast ((ucast ((v AND mask k) OR 2 ^ k :: 32 word) :: byte) AND mask k) OR
       push_bit k (ucast (drop_bit k v) :: 64 word) = ucast v"
proof (rule bit_word_eqI)
  fix n
  assume "k < 8" and "n < LENGTH(64)"
  then show "bit (ucast ((ucast ((v AND mask k) OR 2 ^ k :: 32 word) :: byte) AND mask k) OR
       push_bit k (ucast (drop_bit k v) :: 64 word)) n = bit (ucast v :: 64 word) n"
    by (cases "k \<le> n") (auto simp: bit_simps dest: bit_imp_le_length)
qed

lemma varint_low_byte:
  "ucast ((ucast ((v AND 0x7f) OR 0x80 :: 32 word) :: byte) AND 0x7f) OR
     push_bit 7 (ucast (drop_bit 7 v) :: 64 word) = ucast v"
  unfolding x7f x80 by (rule varint_low_byte_gen) simp

lemma high_bit_set_gen:
  "k < 8 \<Longrightarrow> (ucast ((v AND mask k) OR 2 ^ k :: 32 word) :: byte) AND 2 ^ k \<noteq> 0"
proof -
  assume k: "k < 8"
  then have "bit ((ucast ((v AND mask k) OR 2 ^ k :: 32 word) :: byte) AND 2 ^ k) k"
    by (simp add: bit_simps)
  then show ?thesis
    by auto
qed

lemma high_bit_set: "(ucast ((v AND 0x7f) OR 0x80 :: 32 word) :: byte) AND 0x80 \<noteq> 0"
  unfolding x7f x80 by (rule high_bit_set_gen) simp

lemma small_byte_gen:
  assumes "k < 8" and "v AND mask k = (v :: 32 word)"
  shows "(ucast v :: byte) AND 2 ^ k = 0" and "(ucast (ucast v :: byte) :: 64 word) = ucast v"
proof -
  have "(ucast (v AND mask k) :: byte) AND 2 ^ k = 0"
    by (rule bit_word_eqI) (auto simp: bit_simps)
  then show "(ucast v :: byte) AND 2 ^ k = 0"
    unfolding assms(2) .
  have "(ucast (ucast (v AND mask k) :: byte) :: 64 word) = ucast (v AND mask k)"
    using assms(1) by (intro bit_word_eqI) (auto simp: bit_simps)
  then show "(ucast (ucast v :: byte) :: 64 word) = ucast v"
    unfolding assms(2) .
qed

lemma small_byte:
  assumes "\<not> (v :: 32 word) > 0x7f"
  shows "(ucast v :: byte) AND 0x80 = 0" and "(ucast (ucast v :: byte) :: 64 word) = ucast v"
proof -
  from assms have "uint v < 2 ^ 7"
    by (simp add: word_less_def not_less word_le_def)
  then have v: "v AND mask 7 = v"
    by (simp only: mask_eq_iff)
  show "(ucast v :: byte) AND 0x80 = 0"
    unfolding x80 by (rule small_byte_gen(1) [OF _ v]) simp
  show "(ucast (ucast v :: byte) :: 64 word) = ucast v"
    by (rule small_byte_gen(2) [OF _ v]) simp
qed

lemma varint_parse_uint32_loop:
  "length (uint32_loop v) \<le> k \<Longrightarrow>
     varint_parse k (uint32_loop v @ rest) = Inr (ucast v, length (uint32_loop v))"
proof (induction v arbitrary: k rule: uint32_loop.induct)
  case (1 v)
  show ?case
  proof (cases "v > 0x7f")
    case True
    then have u: "uint32_loop v = ucast ((v AND 0x7f) OR 0x80) # uint32_loop (drop_bit 7 v)"
      by (subst uint32_loop.simps) simp
    with "1.prems" obtain k' where k: "k = Suc k'" and le: "length (uint32_loop (drop_bit 7 v)) \<le> k'"
      by (cases k) auto
    from "1.IH" [OF True le]
    show ?thesis
      unfolding u k by (simp add: high_bit_set varint_low_byte del: varint_parse_numeral)
  next
    case False
    then have u: "uint32_loop v = [ucast v]"
      by (subst uint32_loop.simps) simp
    with "1.prems" obtain k' where k: "k = Suc k'"
      by (cases k) auto
    show ?thesis
      unfolding u k using small_byte [OF False] by simp
  qed
qed

lemma read_varint_uint32_loop:
  "read_varint (uint32_loop v @ rest) = Inr (ucast v, length (uint32_loop v))"
  unfolding read_varint_def
  by (rule varint_parse_uint32_loop) (use uint32_loop_length_5 [of v] in simp)

lemma returning_consume: "returning f (consume p r) = consume (map_parser f p) r"
  by (simp add: returning_def consume_def map_parser_def split: sum.splits)

lemma map_parser_comp: "map_parser f (map_parser g p) = map_parser (\<lambda>x. f (g x)) p"
  by (rule ext) (simp add: map_parser_def split: sum.splits)

lemma scalar_consume: "scalar r T L = consume (scalar_parser T L (textDecoder r)) r"
  by (cases T)
    (simp_all add: reader_int32_def reader_string_def reader_bool_def reader_double_def
      reader_float_def reader_int64_def reader_uint64_def reader_fixed64_def reader_fixed32_def
      reader_bytes_def reader_uint32_def reader_sfixed32_def reader_sfixed64_def
      reader_sint32_def reader_sint64_def returning_consume map_parser_comp)

lemma varint_parse_stable:
  "varint_parse k bs = Inr (v, n) \<Longrightarrow>
     0 < n \<and> n \<le> length bs \<and> varint_parse k (bs @ rest) = Inr (v, n)"
proof (induction k bs arbitrary: v n rule: varint_parse.induct)
  case (3 k b bs)
  show ?case
  proof (cases "b AND 0x80 = 0")
    case True
    with "3.prems" show ?thesis
      by auto
  next
    case False
    with "3.prems" obtain v' n' where p: "varint_parse k bs = Inr (v', n')"
      and v: "v = ucast (b AND 0x7f) OR push_bit 7 v'" and n: "n = Suc n'"
      by (auto split: sum.splits)
    from "3.IH" [OF False p] p v n False show ?thesis
      by simp
  qed
qed simp_all

lemma stable_read_varint: "stable read_varint"
  unfolding stable_def read_varint_def using varint_parse_stable by blast

lemma stable_fixed_parse: "0 < k \<Longrightarrow> stable (fixed_parse k)"
  by (auto simp: stable_def fixed_parse_def split: if_splits)

lemma stable_delimited_parse: "stable delimited_parse"
proof -
  {
    fix bs c n rest
    assume d: "delimited_parse bs = Inr (c, n)"
    then obtain v m where p: "read_varint bs = Inr (v, m)"
      and l: "\<not> length bs < m + unat (low32 v)"
      and c: "c = take (unat (low32 v)) (drop m bs)" and n: "n = m + unat (low32 v)"
      by (auto simp: delimited_parse_def Let_def split: sum.splits if_splits)
    from stable_read_varint p have m: "0 < m" and p': "read_varint (bs @ rest) = Inr (v, m)"
      by (auto simp: stable_def)
    from l have "take (unat (low32 v)) (drop m (bs @ rest)) = take (unat (low32 v)) (drop m bs)"
      by simp
    with p' l c n m have "0 < n \<and> n \<le> length bs \<and> delimited_parse (bs @ rest) = Inr (c, n)"
      by (simp add: delimited_parse_def Let_def)
  }
  then show ?thesis
    unfolding stable_def by blast
qed

lemma stable_map_parser: "stable p \<Longrightarrow> stable (map_parser f p)"
  by (auto simp: stable_def map_parser_def split: sum.splits)

lemma stable_scalar_parser: "stable (scalar_parser T L dec)"
  by (cases T) (simp_all add: stable_map_parser stable_read_varint stable_fixed_parse
      stable_delimited_parse)

lemma encodes_nonempty: "encodes T L dec b v \<Longrightarrow> b \<noteq> []"
  using stable_scalar_parser [of T L dec] by (auto simp: encodes_def stable_def)

lemma consume_at:
  assumes "stable p" and "p b = Inr (v, length b)" and "drop (pos r) (data r) = b @ rest"
  shows "consume p r = Inr (v, r\<lparr>pos := pos r + length b\<rparr>)"
  using assms by (auto simp: consume_def stable_def)

lemma scalar_at:
  assumes "encodes T L (textDecoder r) b v" and "drop (pos r) (data r) = b @ rest"
  shows "scalar r T L = Inr (v, r\<lparr>pos := pos r + length b\<rparr>)"
  unfolding scalar_consume
  using stable_scalar_parser assms(1) [unfolded encodes_def] assms(2) by (rule consume_at)

lemma nat_tag:
  assumes "wt < 8"
  shows "push_bit 3 a OR wt = 8 * a + (wt :: nat)"
proof -
  from assms have t: "take_bit 3 wt = wt"
    by (simp add: take_bit_nat_eq_self)
  have "push_bit 3 a + take_bit 3 wt = push_bit 3 a OR take_bit 3 wt"
    by (rule disjunctive_add) (auto simp: bit_simps)
  then show ?thesis
    unfolding t by (simp add: push_bit_eq_mult)
qed

lemma tag_word:
  assumes "fieldNo < 2 ^ 29" and "wireType < 8"
  shows "unat (push_bit 3 (word_of_nat fieldNo) OR word_of_nat wireType :: 32 word) =
           8 * fieldNo + wireType"
proof -
  have "(push_bit 3 (word_of_nat fieldNo) OR word_of_nat wireType :: 32 word) =
      word_of_nat (push_bit 3 fieldNo OR wireType)"
    by (simp add: of_nat_or_eq of_nat_push_bit)
  also have "\<dots> = word_of_nat (8 * fieldNo + wireType)"
    by (simp only: nat_tag [OF assms(2)])
  finally have e: "(push_bit 3 (word_of_nat fieldNo) OR word_of_nat wireType :: 32 word) =
      word_of_nat (8 * fieldNo + wireType)" .
  show ?thesis
    unfolding e unat_of_nat using assms by simp
qed

lemma low32_ucast [simp]: "low32 (ucast (w :: 32 word)) = w"
  unfolding low32_def by (rule bit_word_eqI) (auto simp: bit_simps)

lemma reader_uint32_at:
  assumes "drop (pos r) (data r) = uint32_loop w @ rest"
  shows "reader_uint32 r = Inr (unat w, r\<lparr>pos := pos r + length (uint32_loop w)\<rparr>)"
  using assms
  by (simp add: reader_uint32_def consume_def returning_def read_varint_uint32_loop)

lemma reader_tag_at:
  assumes "drop (pos r) (data r) = tag_bytes fieldNo wireType @ rest"
    and "fieldNo < 2 ^ 29" and "wireType < 8"
  shows "reader_tag r =
           Inr ((fieldNo, wireType), r\<lparr>pos := pos r + length (tag_bytes fieldNo wireType)\<rparr>)"
  using reader_uint32_at [OF assms(1) [unfolded tag_bytes_def]] tag_word [OF assms(2,3)] assms(3)
  by (simp add: reader_tag_def returning_def tag_bytes_def)

lemma drop_more: "drop p xs = a @ b \<Longrightarrow> drop (p + length a) xs = b"
  by (metis append_eq_conv_conj drop_drop add.commute)

lemma set_prop_same: "get_prop m k = Some v \<Longrightarrow> set_prop k v m = m"
  by (induction m) (auto split: if_splits)

lemma read_field_scalar:
  "scalar_type field = Some (T, L) \<Longrightarrow>
     read_field n nest createOf tn options field wireType r target =
       read_scalar n T L field wireType r target"
  by (auto simp: scalar_type_def read_field_def split: field_kind.splits)

lemma packed_loop_done:
  "\<not> pos r < e \<Longrightarrow> packed_loop n T L k e r target = Some (Inr (target, r))"
  by (simp add: packed_loop.simps)

lemma packed_loop_values:
  assumes "list_all2 (encodes T L dec) bs vs"
    and "textDecoder r = dec"
    and "drop (pos r) (data r) = concat bs @ rest"
    and "get_prop target k = Some (VArray arr)"
  shows "packed_loop (length bs + m) T L k (pos r + length (concat bs)) r target =
           Some (Inr (set_prop k (VArray (arr @ vs)) target,
                      r\<lparr>pos := pos r + length (concat bs)\<rparr>))"
  using assms
proof (induction bs vs arbitrary: r target arr rule: list_all2_induct)
  case Nil
  then show ?case
    by (simp add: packed_loop_done set_prop_same)
next
  case (Cons b bs v vs)
  let ?r = "r\<lparr>pos := pos r + length b\<rparr>"
  let ?t = "set_prop k (VArray (arr @ [v])) target"
  from Cons.hyps(1) have ne: "b \<noteq> []"
    by (rule encodes_nonempty)
  from Cons.prems(2) have d: "drop (pos r) (data r) = b @ (concat bs @ rest)"
    by simp
  from Cons.hyps(1) Cons.prems(1) have "encodes T L (textDecoder r) b v"
    by simp
  from scalar_at [OF this d] have s: "scalar r T L = Inr (v, ?r)" .
  from drop_more [OF d] have d': "drop (pos ?r) (data ?r) = concat bs @ rest"
    by simp
  have g: "get_prop ?t k = Some (VArray (arr @ [v]))"
    by (simp add: get_set_prop)
  from Cons.prems(1) have e: "textDecoder ?r = dec"
    by simp
  have "packed_loop (length (b # bs) + m) T L k (pos r + length (concat (b # bs))) r target =
      packed_loop (length bs + m) T L k (pos ?r + length (concat bs)) ?r ?t"
    using ne s Cons.prems(3)
    by (subst packed_loop.simps) (simp add: push_scalar_def add.assoc)
  also note Cons.IH [OF e d' g]
  finally show ?case
    by (simp add: add.assoc)
qed

lemma uint32_loop_nonempty: "uint32_loop v \<noteq> []"
  by (subst uint32_loop.simps) simp

lemma tag_bytes_nonempty: "tag_bytes fieldNo wireType \<noteq> []"
  by (simp add: tag_bytes_def uint32_loop_nonempty)

lemma read_one_single:
  assumes f: "fieldNoToField info fieldNo = Some field"
    and st: "scalar_type field = Some (T, L)"
    and rep: "repeat field \<noteq> NO" and one: "oneof field = None"
    and no: "fieldNo < 2 ^ 29" and wt: "wireType < 8"
    and single: "\<not> (wireType = LengthDelimited \<and> T \<noteq> STRING \<and> T \<noteq> BYTES)"
    and enc: "encodes T L (textDecoder r) b v"
    and d: "drop (pos r) (data r) = tag_bytes fieldNo wireType @ b @ rest"
    and arr: "get_prop message (localName field) = Some (VArray arr)"
  shows "read_one n nest createOf info options r message =
           Some (Inr (set_prop (localName field) (VArray (arr @ [v])) message,
                      r\<lparr>pos := pos r + length (tag_bytes fieldNo wireType @ b)\<rparr>))"
proof -
  let ?r1 = "r\<lparr>pos := pos r + length (tag_bytes fieldNo wireType)\<rparr>"
  from reader_tag_at [OF d no wt] have tag: "reader_tag r = Inr ((fieldNo, wireType), ?r1)" .
  from drop_more [OF d] have d1: "drop (pos ?r1) (data ?r1) = b @ rest"
    by simp
  from enc have "encodes T L (textDecoder ?r1) b v"
    by simp
  from scalar_at [OF this d1] have s: "scalar ?r1 T L = Inr (v, ?r1\<lparr>pos := pos ?r1 + length b\<rparr>)" .
  from single rep s arr have "read_scalar n T L field wireType ?r1 message =
      Some (Inr (set_prop (localName field) (VArray (arr @ [v])) message,
                 ?r1\<lparr>pos := pos ?r1 + length b\<rparr>))"
    by (auto simp: read_scalar_def push_scalar_def)
  with tag f one st show ?thesis
    by (simp add: read_one_def read_field_scalar add.assoc)
qed

lemma read_loop_unpacked:
  assumes f: "fieldNoToField info fieldNo = Some field"
    and st: "scalar_type field = Some (T, L)"
    and rep: "repeat field \<noteq> NO" and one: "oneof field = None"
    and no: "fieldNo < 2 ^ 29" and wt: "wireType < 8"
    and single: "\<not> (wireType = LengthDelimited \<and> T \<noteq> STRING \<and> T \<noteq> BYTES)"
    and enc: "list_all2 (encodes T L dec) bs vs"
    and dec: "textDecoder r = dec"
    and d: "drop (pos r) (data r) = unpacked fieldNo wireType bs @ rest"
    and arr: "get_prop message (localName field) = Some (VArray arr)"
  shows "read_loop (length bs + m) types info options
           (pos r + length (unpacked fieldNo wireType bs)) r message =
         Some (Inr (set_prop (localName field) (VArray (arr @ vs)) message,
                    r\<lparr>pos := pos r + length (unpacked fieldNo wireType bs)\<rparr>))"
  using enc dec d arr
proof (induction bs vs arbitrary: r message arr rule: list_all2_induct)
  case Nil
  then show ?case
    by (simp add: unpacked_def read_loop_done set_prop_same)
next
  case (Cons b bs v vs)
  let ?t = "tag_bytes fieldNo wireType"
  let ?r = "r\<lparr>pos := pos r + length (?t @ b)\<rparr>"
  let ?m = "set_prop (localName field) (VArray (arr @ [v])) message"
  have u: "unpacked fieldNo wireType (b # bs) = (?t @ b) @ unpacked fieldNo wireType bs"
    by (simp add: unpacked_def)
  from Cons.prems(2) have d0: "drop (pos r) (data r) = ?t @ b @ (unpacked fieldNo wireType bs @ rest)"
    by (simp add: u)
  from Cons.hyps(1) Cons.prems(1) have e: "encodes T L (textDecoder r) b v"
    by simp
  have one_step: "read_one n nest createOf info options r message = Some (Inr (?m, ?r))"
    for n nest createOf
    by (rule read_one_single [OF f st rep one no wt single e d0 Cons.prems(3)])
  from Cons.prems(2) have d1: "drop (pos r) (data r) = (?t @ b) @ (unpacked fieldNo wireType bs @ rest)"
    by (simp add: u)
  from drop_more [OF d1] have d': "drop (pos ?r) (data ?r) = unpacked fieldNo wireType bs @ rest"
    by simp
  have g: "get_prop ?m (localName field) = Some (VArray (arr @ [v]))"
    by (simp add: get_set_prop)
  from Cons.prems(1) have dec': "textDecoder ?r = dec"
    by simp
  have lt: "pos r < pos r + length (unpacked fieldNo wireType (b # bs))"
    using tag_bytes_nonempty [of fieldNo wireType] by (simp add: u)
  have "read_loop (length (b # bs) + m) types info options
      (pos r + length (unpacked fieldNo wireType (b # bs))) r message =
      read_loop (length bs + m) types info options
        (pos ?r + length (unpacked fieldNo wireType bs)) ?r ?m"
    using read_loop_Suc [OF lt, of "length bs + m" types info options message]
    by (simp add: one_step u add.assoc)
  also note Cons.IH [OF dec' d' g]
  finally show ?case
    by (simp add: u add.assoc)
qed

lemma read_one_packed:
  assumes f: "fieldNoToField info fieldNo = Some field"
    and st: "scalar_type field = Some (T, L)"
    and rep: "repeat field \<noteq> NO" and one: "oneof field = None"
    and no: "fieldNo < 2 ^ 29"
    and T: "T \<noteq> STRING" "T \<noteq> BYTES"
    and enc: "list_all2 (encodes T L dec) bs vs"
    and dec: "textDecoder r = dec"
    and small: "length (concat bs) < 2 ^ 32"
    and d: "drop (pos r) (data r) = packed fieldNo bs @ rest"
    and arr: "get_prop message (localName field) = Some (VArray arr)"
  shows "read_one (length bs + m) nest createOf info options r message =
           Some (Inr (set_prop (localName field) (VArray (arr @ vs)) message,
                      r\<lparr>pos := pos r + length (packed fieldNo bs)\<rparr>))"
proof -
  let ?t = "tag_bytes fieldNo LengthDelimited"
  let ?w = "word_of_nat (length (concat bs)) :: 32 word"
  let ?l = "uint32_loop ?w"
  let ?r1 = "r\<lparr>pos := pos r + length ?t\<rparr>"
  let ?r2 = "?r1\<lparr>pos := pos ?r1 + length ?l\<rparr>"
  have wt: "LengthDelimited < 8"
    by (simp add: LengthDelimited_def)
  from d have d0: "drop (pos r) (data r) = ?t @ (?l @ concat bs @ rest)"
    by (simp add: packed_def)
  from reader_tag_at [OF d0 no wt] have tag: "reader_tag r = Inr ((fieldNo, LengthDelimited), ?r1)" .
  from drop_more [OF d0] have d1: "drop (pos ?r1) (data ?r1) = ?l @ (concat bs @ rest)"
    by simp
  from small have u: "unat ?w = length (concat bs)"
    by (simp add: unat_of_nat)
  from reader_uint32_at [OF d1] have len: "reader_uint32 ?r1 = Inr (length (concat bs), ?r2)"
    by (simp only: u)
  from drop_more [OF d1] have d2: "drop (pos ?r2) (data ?r2) = concat bs @ rest"
    by simp
  from dec have dec2: "textDecoder ?r2 = dec"
    by simp
  from packed_loop_values [OF enc dec2 d2 arr, of m]
  have loop: "packed_loop (length bs + m) T L (localName field)
      (pos ?r2 + length (concat bs)) ?r2 message =
      Some (Inr (set_prop (localName field) (VArray (arr @ vs)) message,
                 ?r2\<lparr>pos := pos ?r2 + length (concat bs)\<rparr>))" .
  have "read_scalar (length bs + m) T L field LengthDelimited ?r1 message =
      Some (Inr (set_prop (localName field) (VArray (arr @ vs)) message,
                 ?r2\<lparr>pos := pos ?r2 + length (concat bs)\<rparr>))"
    using rep T len loop by (simp add: read_scalar_def add.commute)
  with tag f one st show ?thesis
    by (simp add: read_one_def read_field_scalar packed_def add.assoc)
qed

lemma read_loop_packed:
  assumes f: "fieldNoToField info fieldNo = Some field"
    and st: "scalar_type field = Some (T, L)"
    and rep: "repeat field \<noteq> NO" and one: "oneof field = None"
    and no: "fieldNo < 2 ^ 29"
    and T: "T \<noteq> STRING" "T \<noteq> BYTES"
    and enc: "list_all2 (encodes T L dec) bs vs"
    and dec: "textDecoder r = dec"
    and small: "length (concat bs) < 2 ^ 32"
    and d: "drop (pos r) (data r) = packed fieldNo bs @ rest"
    and arr: "get_prop message (localName field) = Some (VArray arr)"
  shows "read_loop (Suc (length bs + m)) types info options
           (pos r + length (packed fieldNo bs)) r message =
         Some (Inr (set_prop (localName field) (VArray (arr @ vs)) message,
                    r\<lparr>pos := pos r + length (packed fieldNo bs)\<rparr>))"
proof -
  have lt: "pos r < pos r + length (packed fieldNo bs)"
    using tag_bytes_nonempty [of fieldNo LengthDelimited] by (simp add: packed_def)
  show ?thesis
    unfolding read_loop_Suc [OF lt]
      read_one_packed [OF f st rep one no T enc dec small d arr]
    by (simp add: read_loop_done)
qed

lemma uint32_unat:
  "uint32 (Num (real (unat (v :: 32 word)))) w = Inr (w\<lparr>buf := buf w @ uint32_loop v\<rparr>)"
proof -
  have "unat v < 2 ^ 32"
    using unsigned_less [of v, where 'a = nat] by simp
  then show ?thesis
    unfolding uint32_length by simp
qed

lemma tag_writes_tag_bytes:
  "tag (Num (real fieldNo)) wireType w = Inr (w\<lparr>buf := buf w @ tag_bytes fieldNo wireType\<rparr>)"
proof -
  have "ToInt32 (Num (real fieldNo)) = word_of_nat fieldNo"
    by simp
  then show ?thesis
    unfolding tag_def uint32_unat tag_bytes_def by (simp only:)
qed

lemma encodes_uint32: "encodes UINT32 L dec (uint32_loop v) (VNumber (uint v))"
  using read_varint_uint32_loop [of v "[]"]
  by (simp add: encodes_def map_parser_def)

lemma read_scalar_single:
  assumes "scalar_type g = Some (U, M)"
    and "\<not> (repeat g \<noteq> NO \<and> wt = LengthDelimited \<and> U \<noteq> STRING \<and> U \<noteq> BYTES)"
    and "scalar c U M = Inr (v, c')"
    and "repeat g \<noteq> NO \<longrightarrow> get_prop target (localName g) = Some (VArray a)"
  shows "read_field k nest createOf tn options g wt c target =
           Some (Inr (set_prop (localName g) (if repeat g \<noteq> NO then VArray (a @ [v]) else v) target, c'))"
  using assms by (auto simp: read_field_scalar read_scalar_def push_scalar_def)

text \<open>
  C1. Let \<open>field\<close> be the repeated scalar or enum field of number \<open>fieldNo\<close>, of a scalar
  type other than \<open>STRING\<close> and \<open>BYTES\<close>, outside any oneof group, whose property of the
  message holds the array \<open>arr\<close>, and let the values \<open>vs\<close> have the encodings \<open>bs\<close>. Then
  \<open>read\<close> of the packed encoding (one \<open>LengthDelimited\<close> tag, the byte length as a varint
  below \<open>2 ^ 32\<close>, the values back to back) and \<open>read\<close> of the unpacked encoding (one tag of
  another wire type and one value per element) both return the message with \<open>arr @ vs\<close> at
  the property, the cursor at the end of the input, given more iterations than there are
  values. And whenever a scalar or enum field is not read as packed (it is singular, or the
  wire type is not \<open>LengthDelimited\<close>, or its type is \<open>STRING\<close> or \<open>BYTES\<close>) and \<open>scalar\<close>
  returns the value \<open>v\<close>, exactly that one value is read: it is appended to the array of
  the property when the field is repeated, and assigned to the property when it is singular.
\<close>

theorem packed_unpacked_equivalence:
  assumes f: "fieldNoToField info fieldNo = Some field"
    and st: "scalar_type field = Some (T, L)"
    and rep: "repeat field \<noteq> NO" and one: "oneof field = None"
    and T: "T \<noteq> STRING" "T \<noteq> BYTES"
    and no: "fieldNo < 2 ^ 29"
    and wt: "wireType < 8" "wireType \<noteq> LengthDelimited"
    and enc: "list_all2 (encodes T L dec) bs vs"
    and small: "length (concat bs) < 2 ^ 32"
    and arr: "get_prop message (localName field) = Some (VArray arr)"
    and fuel: "length bs < n"
  shows "read n types info \<lparr>data = packed fieldNo bs, pos = 0, textDecoder = dec\<rparr>
             message options None =
           Some (Inr (set_prop (localName field) (VArray (arr @ vs)) message,
                      \<lparr>data = packed fieldNo bs, pos = length (packed fieldNo bs),
                       textDecoder = dec\<rparr>)) \<and>
         read n types info \<lparr>data = unpacked fieldNo wireType bs, pos = 0, textDecoder = dec\<rparr>
             message options None =
           Some (Inr (set_prop (localName field) (VArray (arr @ vs)) message,
                      \<lparr>data = unpacked fieldNo wireType bs,
                       pos = length (unpacked fieldNo wireType bs), textDecoder = dec\<rparr>)) \<and>
         (scalar_type g = Some (U, M) \<and>
          \<not> (repeat g \<noteq> NO \<and> wt' = LengthDelimited \<and> U \<noteq> STRING \<and> U \<noteq> BYTES) \<and>
          scalar c U M = Inr (v, c') \<and>
          (repeat g \<noteq> NO \<longrightarrow> get_prop target (localName g) = Some (VArray a)) \<longrightarrow>
          read_field k nest createOf tn options g wt' c target =
            Some (Inr (set_prop (localName g)
                         (if repeat g \<noteq> NO then VArray (a @ [v]) else v) target, c')))"
proof (intro conjI impI)
  from fuel obtain m where n: "n = Suc (length bs + m)"
    using less_imp_Suc_add by blast
  let ?p = "\<lparr>data = packed fieldNo bs, pos = 0, textDecoder = dec\<rparr>"
  have "read_loop (Suc (length bs + m)) types info options (pos ?p + length (packed fieldNo bs))
      ?p message =
      Some (Inr (set_prop (localName field) (VArray (arr @ vs)) message,
                 ?p\<lparr>pos := pos ?p + length (packed fieldNo bs)\<rparr>))"
    by (rule read_loop_packed [OF f st rep one no T enc _ small _ arr, where rest = "[]"]) simp_all
  then show "read n types info ?p message options None =
      Some (Inr (set_prop (localName field) (VArray (arr @ vs)) message,
                 \<lparr>data = packed fieldNo bs, pos = length (packed fieldNo bs), textDecoder = dec\<rparr>))"
    by (simp add: read_def len_def n)
next
  from fuel obtain m where n: "n = length bs + Suc m"
    using less_imp_Suc_add by auto
  let ?u = "\<lparr>data = unpacked fieldNo wireType bs, pos = 0, textDecoder = dec\<rparr>"
  from wt(2) have single: "\<not> (wireType = LengthDelimited \<and> T \<noteq> STRING \<and> T \<noteq> BYTES)"
    by simp
  have "read_loop (length bs + Suc m) types info options
      (pos ?u + length (unpacked fieldNo wireType bs)) ?u message =
      Some (Inr (set_prop (localName field) (VArray (arr @ vs)) message,
                 ?u\<lparr>pos := pos ?u + length (unpacked fieldNo wireType bs)\<rparr>))"
    by (rule read_loop_unpacked [OF f st rep one no wt(1) single enc _ _ arr, where rest = "[]"])
      simp_all
  then show "read n types info ?u message options None =
      Some (Inr (set_prop (localName field) (VArray (arr @ vs)) message,
                 \<lparr>data = unpacked fieldNo wireType bs,
                  pos = length (unpacked fieldNo wireType bs), textDecoder = dec\<rparr>))"
    by (simp add: read_def len_def n)
next
  assume "scalar_type g = Some (U, M) \<and>
          \<not> (repeat g \<noteq> NO \<and> wt' = LengthDelimited \<and> U \<noteq> STRING \<and> U \<noteq> BYTES) \<and>
          scalar c U M = Inr (v, c') \<and>
          (repeat g \<noteq> NO \<longrightarrow> get_prop target (localName g) = Some (VArray a))"
  then show "read_field k nest createOf tn options g wt' c target =
            Some (Inr (set_prop (localName g)
                         (if repeat g \<noteq> NO then VArray (a @ [v]) else v) target, c'))"
    using read_scalar_single [of g U M wt' c v c' target a] by blast
qed

theorem packed_unpacked_equivalence_witness:
  "read 4 (\<lambda>T. no_fields) numbers (cursor [0x22, 0x03, 0x01, 0x02, 0x03]) (create numbers)
       \<lparr>readUnknownField = RUF_throw\<rparr> None =
     Some (Inr ([(''count'', VNumber 0), (''values'', VArray [VNumber 1, VNumber 2, VNumber 3])],
                (cursor [0x22, 0x03, 0x01, 0x02, 0x03])\<lparr>pos := 5\<rparr>)) \<and>
   read 4 (\<lambda>T. no_fields) numbers (cursor [0x20, 0x01, 0x20, 0x02, 0x20, 0x03]) (create numbers)
       \<lparr>readUnknownField = RUF_throw\<rparr> None =
     Some (Inr ([(''count'', VNumber 0), (''values'', VArray [VNumber 1, VNumber 2, VNumber 3])],
                (cursor [0x20, 0x01, 0x20, 0x02, 0x20, 0x03])\<lparr>pos := 6\<rparr>)) \<and>
   read_field 0 (\<lambda>T r l opts t. None) (\<lambda>T. []) ''Numbers'' \<lparr>readUnknownField = RUF_throw\<rparr>
       (int32_field 1 ''count'' None) Varint ((cursor [0x08, 0x07])\<lparr>pos := 1\<rparr>)
       (create numbers) =
     Some (Inr ([(''count'', VNumber 7), (''values'', VArray [])],
                (cursor [0x08, 0x07])\<lparr>pos := 2\<rparr>))"
  using packed_unpacked_equivalence [where info = numbers and fieldNo = 4
      and field = "repeated_int32 4 ''values''" and T = INT32 and L = None and wireType = Varint
      and dec = "textDecoder (cursor [])" and bs = "[[0x01], [0x02], [0x03]]"
      and vs = "[VNumber 1, VNumber 2, VNumber 3]" and message = "create numbers" and arr = "[]"
      and n = 4 and types = "\<lambda>T. no_fields" and options = "\<lparr>readUnknownField = RUF_throw\<rparr>"
      and g = "int32_field 1 ''count'' None" and U = INT32 and M = None and wt' = Varint
      and c = "(cursor [0x08, 0x07])\<lparr>pos := 1\<rparr>" and v = "VNumber 7"
      and c' = "(cursor [0x08, 0x07])\<lparr>pos := 2\<rparr>" and target = "create numbers"
      and k = 0 and nest = "\<lambda>T r l opts t. None" and createOf = "\<lambda>T. []" and tn = "''Numbers''"]
  by (simp add: numbers_def repeated_int32_def int32_field_def fieldNoToField_def scalar_type_def
      encodes_def map_parser_def read_varint_def low32_def packed_def unpacked_def tag_bytes_def
      uint32_loop.simps LengthDelimited_def Varint_def cursor_def reader_int32_def consume_def
      returning_def len_def)

end
